theory Spec2Isabelle
  imports Main "HOL-Library.Word"
begin

unbundle bit_operations_syntax

section \<open>Strings, bytes and plain objects of the runtime\<close>

text \<open>
  A JavaScript string is a sequence of 16-bit code units; a file buffer is a sequence of
  bytes. Literals of the source are written \<open>js ''...''\<close>.
\<close>

type_synonym uchar = "16 word"
type_synonym jsstring = "uchar list"
type_synonym byte = "8 word"

definition js :: "string \<Rightarrow> jsstring" where
  "js s = map (\<lambda>c. of_nat (of_char c)) s"

text \<open>
  A plain object (\<open>{}\<close>, or an object built by \<open>JSON.parse\<close>) is the list of its own
  properties in the order the runtime enumerates them: array-index keys first, ascending,
  then the other keys in the order of their creation. Its prototype is
  \<open>Object.prototype\<close>, whose members every property read falls back to.
\<close>

type_synonym 'a jsobject = "(jsstring \<times> 'a) list"

definition Object_prototype :: "jsstring list" where
  "Object_prototype =
     [js ''constructor'', js ''__defineGetter__'', js ''__defineSetter__'',
      js ''hasOwnProperty'', js ''__lookupGetter__'', js ''__lookupSetter__'',
      js ''isPrototypeOf'', js ''propertyIsEnumerable'', js ''toString'',
      js ''valueOf'', js ''__proto__'', js ''toLocaleString'']"

text \<open>The result of a property read \<open>obj[k]\<close> on a plain object.\<close>

datatype 'a property = Own 'a | Inherited jsstring | Undefined

definition js_get :: "'a jsobject \<Rightarrow> jsstring \<Rightarrow> 'a property" where
  "js_get obj k =
     (case map_of obj k of
        Some v \<Rightarrow> Own v
      | None \<Rightarrow> if k \<in> set Object_prototype then Inherited k else Undefined)"

text \<open>
  What the runtime prints for a member of \<open>Object.prototype\<close> when it is converted to a
  string: the prototype object itself for \<open>__proto__\<close>, the function \<open>Object\<close> for
  \<open>constructor\<close>, a native function named after the key otherwise.
\<close>

definition builtin_ToString :: "jsstring \<Rightarrow> jsstring" where
  "builtin_ToString k =
     (if k = js ''__proto__'' then js ''[object Object]''
      else js ''function '' @ (if k = js ''constructor'' then js ''Object'' else k)
           @ js ''() { [native code] }'')"

subsection \<open>Decimal numerals\<close>

definition digit :: "nat \<Rightarrow> uchar" where
  "digit d = of_nat (48 + d)"

fun digits :: "nat \<Rightarrow> jsstring" where
  "digits n = (if n < 10 then [digit n] else digits (n div 10) @ [digit (n mod 10)])"

declare digits.simps [simp del]

definition is_digit :: "uchar \<Rightarrow> bool" where
  "is_digit c \<longleftrightarrow> 0x30 \<le> c \<and> c \<le> 0x39"

definition digit_val :: "uchar \<Rightarrow> nat" where
  "digit_val c = unat c - 48"

definition nat_of_digits :: "jsstring \<Rightarrow> nat" where
  "nat_of_digits ds = foldl (\<lambda>a c. 10 * a + digit_val c) 0 ds"

text \<open>
  A key is an array index when it is the canonical numeral of an integer below
  \<open>2^32 - 1\<close>. \<open>js_put\<close> is the assignment \<open>obj[k] = v\<close> on a plain object that has no own
  accessor: an existing own property keeps its place, a new one is created at its
  place in the enumeration order. (The upload handler only assigns under generated ids
  of ten characters; the prototype's \<open>__proto__\<close> setter, nine characters, is never
  reached and is not modelled.)
\<close>

definition array_index :: "jsstring \<Rightarrow> nat option" where
  "array_index k =
     (if k \<noteq> [] \<and> list_all is_digit k \<and> digits (nat_of_digits k) = k
         \<and> int (nat_of_digits k) < 4294967295
      then Some (nat_of_digits k) else None)"

definition key_before :: "jsstring \<Rightarrow> jsstring \<Rightarrow> bool" where
  "key_before k k' =
     (case array_index k of
        None \<Rightarrow> False
      | Some i \<Rightarrow> (case array_index k' of None \<Rightarrow> True | Some j \<Rightarrow> i < j))"

fun js_put :: "jsstring \<Rightarrow> 'a \<Rightarrow> 'a jsobject \<Rightarrow> 'a jsobject" where
  "js_put k v [] = [(k, v)]"
| "js_put k v ((k', v') # ps) =
     (if k' = k then (k, v) # ps
      else if key_before k k' then (k, v) # (k', v') # ps
      else (k', v') # js_put k v ps)"

text \<open>
  The invariant of this representation: the keys are distinct and in enumeration order
  (no later key comes before an earlier one).
\<close>

definition enumerated :: "'a jsobject \<Rightarrow> bool" where
  "enumerated ps = sorted_wrt (\<lambda>a b. fst a \<noteq> fst b \<and> \<not> key_before (fst b) (fst a)) ps"

section \<open>JSON values and \<open>JSON.stringify\<close>\<close>

text \<open>
  The values \<open>JSON.parse\<close> returns and \<open>JSON.stringify\<close> prints. A Number is kept
  as its exact decimal value: \<open>Integer n\<close>, or \<open>Decimal m k\<close> for \<open>m / 10^k\<close> with
  \<open>k > 0\<close> and \<open>m\<close> not a multiple of ten. The rounding of a numeral to the nearest
  double, with its overflow and underflow, is not modelled; the model agrees with the
  runtime on every integer up to \<open>2^53\<close>, which covers every value of \<open>Date.now()\<close>.
\<close>

datatype jsnumber = Integer int | Decimal int nat

datatype json =
    JNull
  | JBool bool
  | JNum jsnumber
  | JStr jsstring
  | JArr "json list"
  | JObj "(jsstring \<times> json) list"

subsection \<open>Numbers to strings\<close>

definition strip_zeros :: "jsstring \<Rightarrow> jsstring" where
  "strip_zeros s = rev (dropWhile (\<lambda>c. c = 0x30) (rev s))"

text \<open>
  \<open>exponent_form s n\<close> prints the digits \<open>s\<close> with the decimal point after the first
  one, and the exponent \<open>n - 1\<close>.
\<close>

definition exponent_form :: "jsstring \<Rightarrow> int \<Rightarrow> jsstring" where
  "exponent_form s n =
     (if length s = 1 then s else hd s # 0x2E # tl s)
     @ [0x65] @ (if n - 1 < 0 then [0x2D] else [0x2B]) @ digits (nat \<bar>n - 1\<bar>)"

definition Number_toString :: "jsnumber \<Rightarrow> jsstring" where
  "Number_toString x =
     (case x of
        Integer i \<Rightarrow>
          (let d = digits (nat \<bar>i\<bar>) in
           (if i < 0 then [0x2D] else [])
           @ (if length d \<le> 21 then d else exponent_form (strip_zeros d) (int (length d))))
      | Decimal m k \<Rightarrow>
          (let s = digits (nat \<bar>m\<bar>); n = int (length s) - int k in
           (if m < 0 then [0x2D] else [])
           @ (if 0 < n \<and> n \<le> 21 then take (nat n) s @ [0x2E] @ drop (nat n) s
              else if - 6 < n \<and> n \<le> 0 then [0x30, 0x2E] @ replicate (nat (- n)) 0x30 @ s
              else exponent_form s n)))"

subsection \<open>Strings to JSON text\<close>

definition hex_digit :: "nat \<Rightarrow> uchar" where
  "hex_digit n = (if n < 10 then of_nat (48 + n) else of_nat (87 + n))"

definition unicode_escape :: "uchar \<Rightarrow> jsstring" where
  "unicode_escape c =
     [0x5C, 0x75, hex_digit (unat c div 4096), hex_digit (unat c div 256 mod 16),
      hex_digit (unat c div 16 mod 16), hex_digit (unat c mod 16)]"

definition is_high_surrogate :: "uchar \<Rightarrow> bool" where
  "is_high_surrogate c \<longleftrightarrow> 0xD800 \<le> c \<and> c \<le> 0xDBFF"

definition is_low_surrogate :: "uchar \<Rightarrow> bool" where
  "is_low_surrogate c \<longleftrightarrow> 0xDC00 \<le> c \<and> c \<le> 0xDFFF"

text \<open>One code unit that is not a surrogate, quoted.\<close>

definition quote_unit :: "uchar \<Rightarrow> jsstring" where
  "quote_unit c =
     (if c = 0x08 then [0x5C, 0x62]
      else if c = 0x09 then [0x5C, 0x74]
      else if c = 0x0A then [0x5C, 0x6E]
      else if c = 0x0C then [0x5C, 0x66]
      else if c = 0x0D then [0x5C, 0x72]
      else if c = 0x22 then [0x5C, 0x22]
      else if c = 0x5C then [0x5C, 0x5C]
      else if c < 0x20 then unicode_escape c
      else [c])"

text \<open>
  A surrogate pair is printed as it is; a surrogate that is not part of a pair is
  escaped.
\<close>

fun quote_units :: "jsstring \<Rightarrow> jsstring" where
  "quote_units [] = []"
| "quote_units [c] =
     (if is_high_surrogate c \<or> is_low_surrogate c then unicode_escape c else quote_unit c)"
| "quote_units (c # d # cs) =
     (if is_high_surrogate c then
        (if is_low_surrogate d then c # d # quote_units cs
         else unicode_escape c @ quote_units (d # cs))
      else if is_low_surrogate c then unicode_escape c @ quote_units (d # cs)
      else quote_unit c @ quote_units (d # cs))"

definition QuoteJSONString :: "jsstring \<Rightarrow> jsstring" where
  "QuoteJSONString s = [0x22] @ quote_units s @ [0x22]"

subsection \<open>Values to JSON text, with a gap of two spaces\<close>

definition gap :: jsstring where
  "gap = [0x20, 0x20]"

text \<open>The separator between two elements or members: a comma, a line feed, the indent.\<close>

definition separator :: "jsstring \<Rightarrow> jsstring" where
  "separator ind = [0x2C, 0x0A] @ ind"

fun stringify :: "jsstring \<Rightarrow> json \<Rightarrow> jsstring"
  and stringify_elements :: "jsstring \<Rightarrow> json list \<Rightarrow> jsstring"
  and stringify_members :: "jsstring \<Rightarrow> (jsstring \<times> json) list \<Rightarrow> jsstring"
where
  "stringify ind JNull = js ''null''"
| "stringify ind (JBool b) = (if b then js ''true'' else js ''false'')"
| "stringify ind (JNum n) = Number_toString n"
| "stringify ind (JStr s) = QuoteJSONString s"
| "stringify ind (JArr []) = js ''[]''"
| "stringify ind (JArr (x # xs)) =
     [0x5B, 0x0A] @ (ind @ gap) @ stringify (ind @ gap) x
     @ stringify_elements (ind @ gap) xs @ [0x0A] @ ind @ [0x5D]"
| "stringify ind (JObj []) = js ''{}''"
| "stringify ind (JObj ((k, v) # ms)) =
     [0x7B, 0x0A] @ (ind @ gap) @ QuoteJSONString k @ [0x3A, 0x20] @ stringify (ind @ gap) v
     @ stringify_members (ind @ gap) ms @ [0x0A] @ ind @ [0x7D]"
| "stringify_elements ind [] = []"
| "stringify_elements ind (x # xs) =
     separator ind @ stringify ind x @ stringify_elements ind xs"
| "stringify_members ind [] = []"
| "stringify_members ind ((k, v) # ms) =
     separator ind @ QuoteJSONString k @ [0x3A, 0x20] @ stringify ind v
     @ stringify_members ind ms"

text \<open>\<open>JSON.stringify(value, null, 2)\<close>.\<close>

definition JSON_stringify :: "json \<Rightarrow> jsstring" where
  "JSON_stringify v = stringify [] v"

section \<open>\<open>JSON.parse\<close>\<close>

subsection \<open>Tokens\<close>

datatype token =
    TLBrace | TRBrace | TLBracket | TRBracket | TColon | TComma
  | TString jsstring
  | TNumber jsnumber
  | TTrue | TFalse | TNull

definition hex_val :: "uchar \<Rightarrow> nat option" where
  "hex_val c =
     (if 0x30 \<le> c \<and> c \<le> 0x39 then Some (unat c - 48)
      else if 0x61 \<le> c \<and> c \<le> 0x66 then Some (unat c - 87)
      else if 0x41 \<le> c \<and> c \<le> 0x46 then Some (unat c - 55)
      else None)"

text \<open>The code unit that four hexadecimal digits denote.\<close>

definition hex4 :: "jsstring \<Rightarrow> uchar option" where
  "hex4 hs =
     (case map hex_val hs of
        [Some a, Some b, Some c, Some d] \<Rightarrow> Some (of_nat (((a * 16 + b) * 16 + c) * 16 + d))
      | _ \<Rightarrow> None)"

text \<open>The character after a backslash, other than \<open>u\<close>.\<close>

definition unescape :: "uchar \<Rightarrow> uchar option" where
  "unescape e =
     (if e = 0x22 \<or> e = 0x5C \<or> e = 0x2F then Some e
      else if e = 0x62 then Some 0x08
      else if e = 0x66 then Some 0x0C
      else if e = 0x6E then Some 0x0A
      else if e = 0x72 then Some 0x0D
      else if e = 0x74 then Some 0x09
      else None)"

definition cons_unit :: "uchar \<Rightarrow> (jsstring \<times> jsstring) option \<Rightarrow> (jsstring \<times> jsstring) option" where
  "cons_unit c res = (case res of None \<Rightarrow> None | Some (s, r) \<Rightarrow> Some (c # s, r))"

text \<open>
  \<open>scan_string\<close> reads a string literal from behind its opening quote: the string it
  denotes and the text behind its closing quote.
\<close>

fun scan_string :: "jsstring \<Rightarrow> (jsstring \<times> jsstring) option" where
  "scan_string [] = None"
| "scan_string (c # cs) =
     (if c = 0x22 then Some ([], cs)
      else if c = 0x5C then
        (case cs of
           [] \<Rightarrow> None
         | e # r \<Rightarrow>
             (if e = 0x75 then
                (case hex4 (take 4 r) of
                   None \<Rightarrow> None
                 | Some u \<Rightarrow> cons_unit u (scan_string (drop 4 r)))
              else
                (case unescape e of
                   None \<Rightarrow> None
                 | Some x \<Rightarrow> cons_unit x (scan_string r))))
      else if c < 0x20 then None
      else cons_unit c (scan_string cs))"

text \<open>
  The Number that the numeral with sign \<open>neg\<close>, digits of value \<open>m\<close> and decimal
  exponent \<open>e\<close> denotes: \<open>m * 10^e\<close>, negated when \<open>neg\<close>.
\<close>

fun reduce_fraction :: "nat \<Rightarrow> nat \<Rightarrow> nat \<times> nat" where
  "reduce_fraction m 0 = (m, 0)"
| "reduce_fraction m (Suc j) =
     (if m mod 10 = 0 then reduce_fraction (m div 10) j else (m, Suc j))"

definition make_number :: "bool \<Rightarrow> nat \<Rightarrow> int \<Rightarrow> jsnumber" where
  "make_number neg m e =
     (let sign = (if neg then - 1 else 1) in
      if 0 \<le> e then Integer (sign * int m * 10 ^ nat e)
      else (case reduce_fraction m (nat (- e)) of
              (m', j) \<Rightarrow> if j = 0 then Integer (sign * int m') else Decimal (sign * int m') j))"

text \<open>
  \<open>scan_number\<close> reads a numeral: an optional minus, the integer part (one zero, or
  digits that do not start with zero), an optional fraction, an optional exponent.
\<close>

definition scan_number :: "jsstring \<Rightarrow> (jsnumber \<times> jsstring) option" where
  "scan_number cs =
     (let neg = (cs \<noteq> [] \<and> hd cs = 0x2D);
          cs1 = (if neg then tl cs else cs);
          ip = takeWhile is_digit cs1;
          cs2 = dropWhile is_digit cs1
      in if ip = [] \<or> (hd ip = 0x30 \<and> 1 < length ip) then None
         else
           (let has_frac = (cs2 \<noteq> [] \<and> hd cs2 = 0x2E);
                fp = (if has_frac then takeWhile is_digit (tl cs2) else []);
                cs3 = (if has_frac then dropWhile is_digit (tl cs2) else cs2)
            in if has_frac \<and> fp = [] then None
               else
                 (let has_exp = (cs3 \<noteq> [] \<and> (hd cs3 = 0x65 \<or> hd cs3 = 0x45));
                      cs4 = (if has_exp then tl cs3 else cs3);
                      eneg = (has_exp \<and> cs4 \<noteq> [] \<and> hd cs4 = 0x2D);
                      cs5 = (if has_exp \<and> cs4 \<noteq> [] \<and> (hd cs4 = 0x2D \<or> hd cs4 = 0x2B)
                             then tl cs4 else cs4);
                      ep = (if has_exp then takeWhile is_digit cs5 else []);
                      cs6 = (if has_exp then dropWhile is_digit cs5 else cs3)
                  in if has_exp \<and> ep = [] then None
                     else Some (make_number neg (nat_of_digits (ip @ fp))
                                  ((if eneg then - int (nat_of_digits ep)
                                    else int (nat_of_digits ep)) - int (length fp)),
                                cs6))))"

definition cons_token :: "token \<Rightarrow> token list option \<Rightarrow> token list option" where
  "cons_token t res = (case res of None \<Rightarrow> None | Some ts \<Rightarrow> Some (t # ts))"

function tokenize :: "jsstring \<Rightarrow> token list option" where
  "tokenize [] = Some []"
| "tokenize (c # cs) =
     (if c = 0x20 \<or> c = 0x09 \<or> c = 0x0A \<or> c = 0x0D then tokenize cs
      else if c = 0x7B then cons_token TLBrace (tokenize cs)
      else if c = 0x7D then cons_token TRBrace (tokenize cs)
      else if c = 0x5B then cons_token TLBracket (tokenize cs)
      else if c = 0x5D then cons_token TRBracket (tokenize cs)
      else if c = 0x3A then cons_token TColon (tokenize cs)
      else if c = 0x2C then cons_token TComma (tokenize cs)
      else if c = 0x22 then
        (case scan_string cs of
           None \<Rightarrow> None
         | Some (s, r) \<Rightarrow> cons_token (TString s) (tokenize r))
      else if c = 0x2D \<or> is_digit c then
        (case scan_number (c # cs) of
           None \<Rightarrow> None
         | Some (n, r) \<Rightarrow> cons_token (TNumber n) (tokenize r))
      else if take 4 (c # cs) = js ''true'' then cons_token TTrue (tokenize (drop 3 cs))
      else if take 5 (c # cs) = js ''false'' then cons_token TFalse (tokenize (drop 4 cs))
      else if take 4 (c # cs) = js ''null'' then cons_token TNull (tokenize (drop 3 cs))
      else None)"
  by pat_completeness auto
termination
proof (relation "measure length")
  have string_rest: "length r \<le> length cs" if "scan_string cs = Some (s, r)" for cs s r
    using that
  proof (induction cs arbitrary: s r rule: scan_string.induct)
    case 1
    then show ?case by simp
  next
    case (2 c cs)
    show ?case
    proof (cases "c = 0x22")
      case True
      with "2.prems" show ?thesis by simp
    next
      case quote: False
      show ?thesis
      proof (cases "c = 0x5C")
        case True
        with quote "2.prems" obtain e r0 where cs: "cs = e # r0"
          by (cases cs) auto
        show ?thesis
        proof (cases "e = 0x75")
          case True
          with quote \<open>c = 0x5C\<close> cs "2.prems" obtain u s' where
            "hex4 (take 4 r0) = Some u" "scan_string (drop 4 r0) = Some (s', r)"
            by (auto simp: cons_unit_def split: option.splits)
          with "2.IH"(1) [OF quote \<open>c = 0x5C\<close> cs True] have "length r \<le> length (drop 4 r0)"
            by blast
          with cs show ?thesis by simp
        next
          case False
          with quote \<open>c = 0x5C\<close> cs "2.prems" obtain x s' where
            "unescape e = Some x" "scan_string r0 = Some (s', r)"
            by (auto simp: cons_unit_def split: option.splits)
          with "2.IH"(2) [OF quote \<open>c = 0x5C\<close> cs False] have "length r \<le> length r0"
            by blast
          with cs show ?thesis by simp
        qed
      next
        case False
        with quote "2.prems" obtain s' where "\<not> c < 0x20" "scan_string cs = Some (s', r)"
          by (auto simp: cons_unit_def split: option.splits if_splits)
        with "2.IH"(3) [OF quote False] have "length r \<le> length cs"
          by blast
        then show ?thesis by simp
      qed
    qed
  qed
  have number_rest: "length r < length cs" if "scan_number cs = Some (n, r)" for cs n r
  proof -
    have drop_le: "length (dropWhile is_digit xs) \<le> length xs" for xs :: jsstring
      by (rule length_dropWhile_le)
    have drop_less: "length (dropWhile is_digit xs) < length xs"
      if "takeWhile is_digit xs \<noteq> []" for xs :: jsstring
      using that by (cases xs) (auto simp: le_imp_less_Suc drop_le split: if_splits)
    have tl_le: "length (tl xs) \<le> length xs" for xs :: jsstring
      by simp
    define neg where "neg = (cs \<noteq> [] \<and> hd cs = 0x2D)"
    define cs1 where "cs1 = (if neg then tl cs else cs)"
    define cs2 where "cs2 = dropWhile is_digit cs1"
    define has_frac where "has_frac = (cs2 \<noteq> [] \<and> hd cs2 = 0x2E)"
    define cs3 where "cs3 = (if has_frac then dropWhile is_digit (tl cs2) else cs2)"
    define has_exp where "has_exp = (cs3 \<noteq> [] \<and> (hd cs3 = 0x65 \<or> hd cs3 = 0x45))"
    define cs4 where "cs4 = (if has_exp then tl cs3 else cs3)"
    define cs5 where "cs5 = (if has_exp \<and> cs4 \<noteq> [] \<and> (hd cs4 = 0x2D \<or> hd cs4 = 0x2B)
                             then tl cs4 else cs4)"
    define cs6 where "cs6 = (if has_exp then dropWhile is_digit cs5 else cs3)"
    define ip where "ip = takeWhile is_digit cs1"
    define fp where "fp = (if has_frac then takeWhile is_digit (tl cs2) else [])"
    define ep where "ep = (if has_exp then takeWhile is_digit cs5 else [])"
    define eneg where "eneg = (has_exp \<and> cs4 \<noteq> [] \<and> hd cs4 = 0x2D)"
    have "scan_number cs =
        (if ip = [] \<or> (hd ip = 0x30 \<and> 1 < length ip) then None
         else if has_frac \<and> fp = [] then None
         else if has_exp \<and> ep = [] then None
         else Some (make_number neg (nat_of_digits (ip @ fp))
                      ((if eneg then - int (nat_of_digits ep) else int (nat_of_digits ep))
                       - int (length fp)), cs6))"
      unfolding scan_number_def Let_def neg_def cs1_def cs2_def has_frac_def cs3_def
        has_exp_def cs4_def cs5_def cs6_def ip_def fp_def ep_def eneg_def
      by (rule refl)
    with that have ip: "takeWhile is_digit cs1 \<noteq> []" and r: "r = cs6"
      by (simp_all add: ip_def split: if_splits)
    have "length cs1 \<le> length cs"
      by (simp add: cs1_def)
    moreover have "length cs2 < length cs1"
      unfolding cs2_def using ip by (rule drop_less)
    moreover have "length cs3 \<le> length cs2"
      unfolding cs3_def using drop_le [of "tl cs2"] tl_le [of cs2] by auto
    moreover have "length cs4 \<le> length cs3"
      by (simp add: cs4_def)
    moreover have "length cs5 \<le> length cs4"
      by (simp add: cs5_def)
    moreover have "length cs6 \<le> length cs3"
      unfolding cs6_def using drop_le [of cs5] \<open>length cs5 \<le> length cs4\<close>
        \<open>length cs4 \<le> length cs3\<close> by auto
    ultimately show ?thesis
      unfolding r by linarith
  qed
  show "wf (measure length)"
    by simp
  show "(r, c # cs) \<in> measure length" if "scan_string cs = Some x" "(s, r) = x"
    for c cs x s r
    using string_rest [of cs s r] that by simp
  show "(r, c # cs) \<in> measure length" if "scan_number (c # cs) = Some x" "(n, r) = x"
    for c cs x n r
    using number_rest [of "c # cs" n r] that by simp
qed simp_all

subsection \<open>Values\<close>

text \<open>
  The parser reads the tokens one by one and keeps the containers that are still open:
  an array with its elements so far (the last one first), or an object with its
  properties so far and the key whose value is being read. A property is created by
  \<open>js_put\<close>, so that of two members with one key the later value is kept.
\<close>

datatype frame =
    InArray "json list"
  | InObject "json jsobject" jsstring

datatype parser =
    Value "frame list"
  | ArrayStart "frame list"
  | ArrayNext "json list" "frame list"
  | ObjectStart "frame list"
  | ObjectKey "json jsobject" "frame list"
  | ObjectColon "json jsobject" jsstring "frame list"
  | ObjectNext "json jsobject" "frame list"
  | Done json

text \<open>A complete value goes to the innermost open container, or is the result.\<close>

fun deliver :: "json \<Rightarrow> frame list \<Rightarrow> parser" where
  "deliver v [] = Done v"
| "deliver v (InArray acc # fs) = ArrayNext (v # acc) fs"
| "deliver v (InObject obj k # fs) = ObjectNext (js_put k v obj) fs"

fun begin_value :: "frame list \<Rightarrow> token \<Rightarrow> parser option" where
  "begin_value fs TLBracket = Some (ArrayStart fs)"
| "begin_value fs TLBrace = Some (ObjectStart fs)"
| "begin_value fs (TString s) = Some (deliver (JStr s) fs)"
| "begin_value fs (TNumber n) = Some (deliver (JNum n) fs)"
| "begin_value fs TTrue = Some (deliver (JBool True) fs)"
| "begin_value fs TFalse = Some (deliver (JBool False) fs)"
| "begin_value fs TNull = Some (deliver JNull fs)"
| "begin_value fs TRBrace = None"
| "begin_value fs TRBracket = None"
| "begin_value fs TColon = None"
| "begin_value fs TComma = None"

fun step :: "parser \<Rightarrow> token \<Rightarrow> parser option" where
  "step (Value fs) t = begin_value fs t"
| "step (ArrayStart fs) t =
     (if t = TRBracket then Some (deliver (JArr []) fs) else begin_value (InArray [] # fs) t)"
| "step (ArrayNext acc fs) t =
     (if t = TComma then Some (Value (InArray acc # fs))
      else if t = TRBracket then Some (deliver (JArr (rev acc)) fs)
      else None)"
| "step (ObjectStart fs) t =
     (case t of
        TRBrace \<Rightarrow> Some (deliver (JObj []) fs)
      | TString k \<Rightarrow> Some (ObjectColon [] k fs)
      | _ \<Rightarrow> None)"
| "step (ObjectKey obj fs) t =
     (case t of TString k \<Rightarrow> Some (ObjectColon obj k fs) | _ \<Rightarrow> None)"
| "step (ObjectColon obj k fs) t =
     (if t = TColon then Some (Value (InObject obj k # fs)) else None)"
| "step (ObjectNext obj fs) t =
     (if t = TComma then Some (ObjectKey obj fs)
      else if t = TRBrace then Some (deliver (JObj obj) fs)
      else None)"
| "step (Done v) t = None"

fun run :: "parser \<Rightarrow> token list \<Rightarrow> json option" where
  "run p [] = (case p of Done v \<Rightarrow> Some v | _ \<Rightarrow> None)"
| "run p (t # ts) = (case step p t of None \<Rightarrow> None | Some p' \<Rightarrow> run p' ts)"

text \<open>\<open>JSON.parse(text)\<close>: the value, or \<open>None\<close> when it throws a SyntaxError.\<close>

definition JSON_parse :: "jsstring \<Rightarrow> json option" where
  "JSON_parse text = (case tokenize text of None \<Rightarrow> None | Some ts \<Rightarrow> run (Value []) ts)"

section \<open>The server\<close>

subsection \<open>The base URL\<close>

record iface =
  family :: jsstring
  internal :: bool
  address :: jsstring

text \<open>The inner loop of \<open>getLocalIP\<close>, over the addresses of one interface.\<close>

fun first_external_IPv4 :: "iface list \<Rightarrow> jsstring option" where
  "first_external_IPv4 [] = None"
| "first_external_IPv4 (i # is) =
     (if family i = js ''IPv4'' \<and> \<not> internal i then Some (address i)
      else first_external_IPv4 is)"

fun getLocalIP :: "iface list jsobject \<Rightarrow> jsstring" where
  "getLocalIP [] = js ''localhost''"
| "getLocalIP ((name, ifaces) # interfaces) =
     (case first_external_IPv4 ifaces of
        Some a \<Rightarrow> a
      | None \<Rightarrow> getLocalIP interfaces)"

text \<open>\<open>process.env.PORT || 3000\<close>, as the template literal prints it.\<close>

definition PORT :: "jsstring option \<Rightarrow> jsstring" where
  "PORT env_PORT =
     (case env_PORT of
        None \<Rightarrow> js ''3000''
      | Some p \<Rightarrow> if p = [] then js ''3000'' else p)"

definition BASE_URL :: "iface list jsobject \<Rightarrow> jsstring option \<Rightarrow> jsstring" where
  "BASE_URL interfaces env_PORT =
     js ''http://'' @ getLocalIP interfaces @ js '':'' @ PORT env_PORT"

subsection \<open>State\<close>

text \<open>
  A photo record is the object \<open>{ filename, createdAt }\<close> the upload handler stores. The
  manifest is modelled with photo records as its values: the only values the program
  ever stores in it or writes to the manifest file.
\<close>

record photo_record =
  filename :: jsstring
  createdAt :: int

text \<open>
  The state of the server: the process-wide \<open>manifest\<close> object, the files of the
  uploads directory by name, and the text of the manifest file when it exists. A name
  \<open>id + ext\<close> has no path separator, so \<open>path.join(UPLOADS_DIR, filename)\<close> names the file
  \<open>filename\<close> of that directory.
\<close>

record server =
  manifest :: "photo_record jsobject"
  UPLOADS_DIR :: "jsstring \<rightharpoonup> byte list"
  MANIFEST_PATH :: "jsstring option"

definition record_json :: "photo_record \<Rightarrow> json" where
  "record_json r =
     JObj [(js ''filename'', JStr (filename r)), (js ''createdAt'', JNum (Integer (createdAt r)))]"

definition manifest_json :: "photo_record jsobject \<Rightarrow> json" where
  "manifest_json m = JObj (map (\<lambda>(k, r). (k, record_json r)) m)"

text \<open>\<open>saveManifest\<close>, when the write succeeds.\<close>

definition saveManifest :: "photo_record jsobject \<Rightarrow> server \<Rightarrow> server" where
  "saveManifest m s = s\<lparr>MANIFEST_PATH := Some (JSON_stringify (manifest_json m))\<rparr>"

text \<open>
  \<open>loadManifest\<close>, given the text of the manifest file, or \<open>None\<close> when the file cannot
  be read: both failures are caught and give the empty object.
\<close>

definition loadManifest :: "jsstring option \<Rightarrow> json" where
  "loadManifest file =
     (case file of
        None \<Rightarrow> JObj []
      | Some raw \<Rightarrow> (case JSON_parse raw of None \<Rightarrow> JObj [] | Some v \<Rightarrow> v))"

text \<open>
  The manifest that a loaded JSON value is: an object whose values are the objects
  \<open>{ filename, createdAt }\<close> that the program writes. Other values are outside the model
  of the handlers.
\<close>

definition json_record :: "json \<Rightarrow> photo_record option" where
  "json_record v =
     (case v of
        JObj [(k1, JStr f), (k2, JNum (Integer t))] \<Rightarrow>
          if k1 = js ''filename'' \<and> k2 = js ''createdAt''
          then Some \<lparr>filename = f, createdAt = t\<rparr> else None
      | _ \<Rightarrow> None)"

fun json_records :: "json jsobject \<Rightarrow> photo_record jsobject option" where
  "json_records [] = Some []"
| "json_records ((k, v) # ms) =
     (case json_record v of
        None \<Rightarrow> None
      | Some r \<Rightarrow> (case json_records ms of None \<Rightarrow> None | Some m \<Rightarrow> Some ((k, r) # m)))"

definition json_manifest :: "json \<Rightarrow> photo_record jsobject option" where
  "json_manifest v = (case v of JObj ms \<Rightarrow> json_records ms | _ \<Rightarrow> None)"

text \<open>
  A restart of the process on the same disk: \<open>let manifest = loadManifest()\<close>. The
  result is \<open>None\<close> when the loaded value is not a manifest of photo records.
\<close>

definition restart :: "server \<Rightarrow> server option" where
  "restart s =
     (case json_manifest (loadManifest (MANIFEST_PATH s)) of
        None \<Rightarrow> None
      | Some m \<Rightarrow> Some (s\<lparr>manifest := m\<rparr>))"

subsection \<open>Library functions the upload handler calls\<close>

text \<open>
  Modelled from the spec: the id generator (``generates a short random unique id''), a
  function of the nanoid library, which is not in the source. \<open>nanoid(size)\<close> returns
  \<open>size\<close> symbols of a 64-letter URL-safe alphabet, each picked by the low six bits of one
  random byte; the random bytes are an input of the model.
\<close>

definition urlAlphabet :: jsstring where
  "urlAlphabet = js ''useandom-26T198340PX75pxJACKVERYMINDBUSHWOLF_GQZbfghjklqvwyzrict''"

definition nanoid :: "nat \<Rightarrow> (nat \<Rightarrow> byte) \<Rightarrow> jsstring" where
  "nanoid n pool = map (\<lambda>i. urlAlphabet ! unat (pool i AND 63)) [0..<n]"

text \<open>
  \<open>path.extname\<close> of the runtime (POSIX): one pass over the path from its last
  character, stopped at the separator that ends the last path component. The counter of
  \<open>extname_loop\<close> is \<open>i + 1\<close> for the loop variable \<open>i\<close>; \<open>endp\<close> is the variable \<open>end\<close>.
\<close>

record extname_vars =
  startDot :: int
  startPart :: int
  endp :: int
  matchedSlash :: bool
  preDotState :: int

fun extname_loop :: "jsstring \<Rightarrow> nat \<Rightarrow> extname_vars \<Rightarrow> extname_vars" where
  "extname_loop path 0 st = st"
| "extname_loop path (Suc i) st =
     (if path ! i = 0x2F then
        (if \<not> matchedSlash st then st\<lparr>startPart := int i + 1\<rparr>
         else extname_loop path i st)
      else
        (let st1 = (if endp st = - 1 then st\<lparr>matchedSlash := False, endp := int i + 1\<rparr>
                    else st);
             st2 = (if path ! i = 0x2E then
                      (if startDot st1 = - 1 then st1\<lparr>startDot := int i\<rparr>
                       else if preDotState st1 \<noteq> 1 then st1\<lparr>preDotState := 1\<rparr>
                       else st1)
                    else if startDot st1 \<noteq> - 1 then st1\<lparr>preDotState := - 1\<rparr>
                    else st1)
         in extname_loop path i st2))"

definition extname :: "jsstring \<Rightarrow> jsstring" where
  "extname path =
     (let st = extname_loop path (length path)
                 \<lparr>startDot = - 1, startPart = 0, endp = - 1, matchedSlash = True,
                  preDotState = 0\<rparr>
      in if startDot st = - 1 \<or> endp st = - 1 \<or> preDotState st = 0
            \<or> (preDotState st = 1 \<and> startDot st = endp st - 1
                \<and> startDot st = startPart st + 1)
         then []
         else drop (nat (startDot st)) (take (nat (endp st)) path))"

subsection \<open>Requests and responses\<close>

text \<open>
  The file multer hands to the upload handler. \<open>mimetype\<close> is the content type the
  client declared for the part, a string.
\<close>

record upload_file =
  mimetype :: jsstring
  originalname :: jsstring
  buffer :: "byte list"

text \<open>
  What the environment decides during one upload: the random bytes the id is made of,
  the clock, and whether each of the two writes succeeds. A failed write is modelled as
  leaving the store as it was.
\<close>

record environment =
  randomBytes :: "nat \<Rightarrow> byte"
  Date_now :: int
  writeFile_ok :: bool
  writeFileSync_ok :: bool

text \<open>A value of the parsed query string.\<close>

datatype query_value =
    QString jsstring
  | QArray "query_value list"
  | QObject "(jsstring \<times> query_value) list"

text \<open>
  A response body: a JSON object with string members, a text, a PNG image, or the viewer
  page for an id (static markup, with the id inserted into its script).
\<close>

datatype body =
    Json "(jsstring \<times> jsstring) list"
  | Text jsstring
  | Png "byte list"
  | ViewerPage jsstring

record response =
  status :: nat
  body :: body

subsection \<open>POST /api/upload\<close>

definition mimeToExt :: "jsstring jsobject" where
  "mimeToExt =
     [(js ''image/jpeg'', js ''.jpg''),
      (js ''image/jpg'', js ''.jpg''),
      (js ''image/png'', js ''.png''),
      (js ''image/webp'', js ''.webp''),
      (js ''image/gif'', js ''.gif''),
      (js ''image/heic'', js ''.heic''),
      (js ''image/heif'', js ''.heif'')]"

text \<open>
  \<open>path.extname(req.file.originalname) || '.jpg'\<close>, the part of the expression after the
  table.
\<close>

definition extname_or_default :: "upload_file \<Rightarrow> jsstring" where
  "extname_or_default f =
     (if extname (originalname f) \<noteq> [] then extname (originalname f) else js ''.jpg'')"

text \<open>
  The constant \<open>ext\<close>, as the string that \<open>id + ext\<close> appends:
  \<open>mimeToExt[req.file.mimetype] || path.extname(req.file.originalname) || '.jpg'\<close>.
\<close>

definition upload_ext :: "upload_file \<Rightarrow> jsstring" where
  "upload_ext f =
     (case js_get mimeToExt (mimetype f) of
        Own e \<Rightarrow> if e \<noteq> [] then e else extname_or_default f
      | Inherited k \<Rightarrow> builtin_ToString k
      | Undefined \<Rightarrow> extname_or_default f)"

definition upload :: "jsstring \<Rightarrow> environment \<Rightarrow> upload_file option \<Rightarrow> server
    \<Rightarrow> response \<times> server" where
  "upload base env file s =
     (case file of
        None \<Rightarrow> (\<lparr>status = 400, body = Json [(js ''error'', js ''No photo uploaded'')]\<rparr>, s)
      | Some f \<Rightarrow>
          (let id' = nanoid 10 (randomBytes env);
               ext = upload_ext f;
               filename' = id' @ ext
           in if \<not> writeFile_ok env
              then (\<lparr>status = 500, body = Json [(js ''error'', js ''Upload failed'')]\<rparr>, s)
              else
                (let s1 = s\<lparr>UPLOADS_DIR := (UPLOADS_DIR s)(filename' \<mapsto> buffer f)\<rparr>;
                     s2 = s1\<lparr>manifest :=
                            js_put id' \<lparr>filename = filename', createdAt = Date_now env\<rparr>
                              (manifest s1)\<rparr>
                 in if \<not> writeFileSync_ok env
                    then (\<lparr>status = 500, body = Json [(js ''error'', js ''Upload failed'')]\<rparr>,
                          s2)
                    else (\<lparr>status = 200,
                           body = Json [(js ''id'', id'), (js ''viewUrl'', base @ js ''/view/'' @ id')]\<rparr>,
                          saveManifest (manifest s2) s2))))"

subsection \<open>GET /api/meta/:id and GET /view/:id\<close>

text \<open>
  \<open>rec.filename\<close> in a template literal, for a truthy \<open>rec\<close>: a member of
  \<open>Object.prototype\<close> has no property \<open>filename\<close>, and \<open>undefined\<close> prints as its name.
\<close>

definition meta :: "jsstring \<Rightarrow> jsstring \<Rightarrow> server \<Rightarrow> response" where
  "meta base id' s =
     (case js_get (manifest s) id' of
        Undefined \<Rightarrow> \<lparr>status = 404, body = Json [(js ''error'', js ''Not found'')]\<rparr>
      | Own r \<Rightarrow>
          \<lparr>status = 200,
           body = Json [(js ''id'', id'), (js ''imageUrl'', js ''/uploads/'' @ filename r),
                        (js ''viewUrl'', base @ js ''/view/'' @ id')]\<rparr>
      | Inherited k \<Rightarrow>
          \<lparr>status = 200,
           body = Json [(js ''id'', id'), (js ''imageUrl'', js ''/uploads/'' @ js ''undefined''),
                        (js ''viewUrl'', base @ js ''/view/'' @ id')]\<rparr>)"

definition view :: "jsstring \<Rightarrow> server \<Rightarrow> response" where
  "view id' s =
     (case js_get (manifest s) id' of
        Undefined \<Rightarrow> \<lparr>status = 404, body = Text (js ''Not found'')\<rparr>
      | Own r \<Rightarrow> \<lparr>status = 200, body = ViewerPage id'\<rparr>
      | Inherited k \<Rightarrow> \<lparr>status = 200, body = ViewerPage id'\<rparr>)"

subsection \<open>GET /api/qr\<close>

text \<open>
  The QR encoder is a library: \<open>toBuffer text width margin\<close> is the PNG it returns, or
  \<open>None\<close> when it fails. Of the values of a query string only the empty string is falsy.
\<close>

type_synonym encoder = "query_value \<Rightarrow> nat \<Rightarrow> nat \<Rightarrow> byte list option"

definition truthy :: "query_value \<Rightarrow> bool" where
  "truthy v \<longleftrightarrow> v \<noteq> QString []"

definition qr :: "encoder \<Rightarrow> query_value option \<Rightarrow> response" where
  "qr toBuffer query_text =
     (let text = (case query_text of
                    None \<Rightarrow> QString []
                  | Some v \<Rightarrow> if truthy v then v else QString [])
      in if \<not> truthy text then \<lparr>status = 400, body = Text (js ''Missing text'')\<rparr>
         else (case toBuffer text 256 1 of
                 Some buf \<Rightarrow> \<lparr>status = 200, body = Png buf\<rparr>
               | None \<Rightarrow> \<lparr>status = 500, body = Text (js ''QR generation failed'')\<rparr>))"

subsection \<open>The four operations on the state\<close>

datatype request =
    Upload environment "upload_file option"
  | Meta jsstring
  | View jsstring
  | Qr "query_value option"

definition handle :: "jsstring \<Rightarrow> encoder \<Rightarrow> request \<Rightarrow> server \<Rightarrow> response \<times> server" where
  "handle base toBuffer req s =
     (case req of
        Upload env file \<Rightarrow> upload base env file s
      | Meta id' \<Rightarrow> (meta base id' s, s)
      | View id' \<Rightarrow> (view id' s, s)
      | Qr text \<Rightarrow> (qr toBuffer text, s))"

section \<open>The claims in their own words, and sample inputs\<close>

text \<open>
  The extension of a stored file as the specification describes it: the declared content
  type is looked up in the table; if it is not there, the extension of the original
  filename is used; if that is empty, the default.
\<close>

definition ext_by_fallback :: "upload_file \<Rightarrow> jsstring" where
  "ext_by_fallback f =
     (case map_of mimeToExt (mimetype f) of
        Some e \<Rightarrow> e
      | None \<Rightarrow>
          (if extname (originalname f) \<noteq> [] then extname (originalname f)
           else js ''.jpg''))"

text \<open>
  The QR endpoint as the specification describes it: 400 when the parameter is missing,
  otherwise the encoder's PNG, or 500 when the encoder fails.
\<close>

definition qr_as_claimed :: "encoder \<Rightarrow> query_value option \<Rightarrow> response" where
  "qr_as_claimed toBuffer query_text =
     (case query_text of
        None \<Rightarrow> \<lparr>status = 400, body = Text (js ''Missing text'')\<rparr>
      | Some text \<Rightarrow>
          (case toBuffer text 256 1 of
             Some buf \<Rightarrow> \<lparr>status = 200, body = Png buf\<rparr>
           | None \<Rightarrow> \<lparr>status = 500, body = Text (js ''QR generation failed'')\<rparr>))"

text \<open>The same, with the empty string treated as a missing parameter.\<close>

definition qr_missing_or_empty :: "encoder \<Rightarrow> query_value option \<Rightarrow> response" where
  "qr_missing_or_empty toBuffer query_text =
     (case query_text of
        None \<Rightarrow> \<lparr>status = 400, body = Text (js ''Missing text'')\<rparr>
      | Some text \<Rightarrow>
          (if text = QString [] then \<lparr>status = 400, body = Text (js ''Missing text'')\<rparr>
           else (case toBuffer text 256 1 of
                   Some buf \<Rightarrow> \<lparr>status = 200, body = Png buf\<rparr>
                 | None \<Rightarrow> \<lparr>status = 500, body = Text (js ''QR generation failed'')\<rparr>)))"

text \<open>
  A request collides when it is an upload with a file whose generated id is already a
  key of the manifest.
\<close>

definition no_collision :: "request \<Rightarrow> server \<Rightarrow> bool" where
  "no_collision req s =
     (case req of
        Upload env (Some f) \<Rightarrow> map_of (manifest s) (nanoid 10 (randomBytes env)) = None
      | _ \<Rightarrow> True)"

text \<open>A sequence of requests, served one after the other.\<close>

fun serve :: "jsstring \<Rightarrow> encoder \<Rightarrow> request list \<Rightarrow> server \<Rightarrow> server" where
  "serve base toBuffer [] s = s"
| "serve base toBuffer (req # reqs) s =
     serve base toBuffer reqs (snd (handle base toBuffer req s))"

fun no_collisions :: "jsstring \<Rightarrow> encoder \<Rightarrow> request list \<Rightarrow> server \<Rightarrow> bool" where
  "no_collisions base toBuffer [] s \<longleftrightarrow> True"
| "no_collisions base toBuffer (req # reqs) s \<longleftrightarrow>
     no_collision req s \<and> no_collisions base toBuffer reqs (snd (handle base toBuffer req s))"

text \<open>
  A time value is an integer number of milliseconds in the range of \<open>Date\<close>. A photo
  manifest is a manifest object (keys in enumeration order) whose records carry time
  values.
\<close>

definition time_value :: "int \<Rightarrow> bool" where
  "time_value t \<longleftrightarrow> \<bar>t\<bar> \<le> 8640000000000000"

definition photo_manifest :: "photo_record jsobject \<Rightarrow> bool" where
  "photo_manifest m \<longleftrightarrow> enumerated m \<and> list_all (\<lambda>kv. time_value (createdAt (snd kv))) m"

text \<open>An entry resolves when the metadata lookup of its id answers with its record.\<close>

definition resolves :: "jsstring \<Rightarrow> server \<Rightarrow> jsstring \<times> photo_record \<Rightarrow> bool" where
  "resolves base s kv \<longleftrightarrow>
     meta base (fst kv) s =
       \<lparr>status = 200,
        body = Json [(js ''id'', fst kv), (js ''imageUrl'', js ''/uploads/'' @ filename (snd kv)),
                     (js ''viewUrl'', base @ js ''/view/'' @ fst kv)]\<rparr>"

text \<open>
  For the round trip of \<open>JSON.stringify\<close> and \<open>JSON.parse\<close>: the values whose numbers
  are integers below \<open>10^21\<close> (printed as plain digits) and whose objects are in
  enumeration order; the tokens of the text of a value; the end of a numeral; an
  indentation.
\<close>

fun canonical :: "json \<Rightarrow> bool"
  and canonical_elements :: "json list \<Rightarrow> bool"
  and canonical_members :: "(jsstring \<times> json) list \<Rightarrow> bool"
where
  "canonical JNull = True"
| "canonical (JBool b) = True"
| "canonical (JNum n) =
     (case n of Integer i \<Rightarrow> \<bar>i\<bar> < 1000000000000000000000 | Decimal m k \<Rightarrow> False)"
| "canonical (JStr s) = True"
| "canonical (JArr xs) = canonical_elements xs"
| "canonical (JObj ms) = (enumerated ms \<and> canonical_members ms)"
| "canonical_elements [] = True"
| "canonical_elements (x # xs) = (canonical x \<and> canonical_elements xs)"
| "canonical_members [] = True"
| "canonical_members ((k, v) # ms) = (canonical v \<and> canonical_members ms)"

fun tokens :: "json \<Rightarrow> token list"
  and tokens_elements :: "json list \<Rightarrow> token list"
  and tokens_members :: "(jsstring \<times> json) list \<Rightarrow> token list"
where
  "tokens JNull = [TNull]"
| "tokens (JBool b) = [if b then TTrue else TFalse]"
| "tokens (JNum n) = [TNumber n]"
| "tokens (JStr s) = [TString s]"
| "tokens (JArr []) = [TLBracket, TRBracket]"
| "tokens (JArr (x # xs)) = TLBracket # tokens x @ tokens_elements xs @ [TRBracket]"
| "tokens (JObj []) = [TLBrace, TRBrace]"
| "tokens (JObj ((k, v) # ms)) =
     TLBrace # TString k # TColon # tokens v @ tokens_members ms @ [TRBrace]"
| "tokens_elements [] = []"
| "tokens_elements (x # xs) = TComma # tokens x @ tokens_elements xs"
| "tokens_members [] = []"
| "tokens_members ((k, v) # ms) = TComma # TString k # TColon # tokens v @ tokens_members ms"

definition prepend :: "token list \<Rightarrow> token list option \<Rightarrow> token list option" where
  "prepend ts res = (case res of None \<Rightarrow> None | Some us \<Rightarrow> Some (ts @ us))"

definition number_end :: "jsstring \<Rightarrow> bool" where
  "number_end r \<longleftrightarrow>
     (case r of [] \<Rightarrow> True | c # _ \<Rightarrow> \<not> is_digit c \<and> c \<noteq> 0x2E \<and> c \<noteq> 0x65 \<and> c \<noteq> 0x45)"

definition blank :: "jsstring \<Rightarrow> bool" where
  "blank ws \<longleftrightarrow> set ws \<subseteq> {0x20}"

text \<open>Sample inputs.\<close>

definition zero_pool :: "nat \<Rightarrow> byte" where
  "zero_pool i = 0"

definition failing_encoder :: encoder where
  "failing_encoder text width margin = None"

definition empty_server :: server where
  "empty_server = \<lparr>manifest = [], UPLOADS_DIR = Map.empty, MANIFEST_PATH = None\<rparr>"

definition one_photo :: server where
  "one_photo =
     \<lparr>manifest =
        [(js ''V1StGXR8_Z'',
          \<lparr>filename = js ''V1StGXR8_Z.png'', createdAt = 1690000000000\<rparr>)],
      UPLOADS_DIR = [js ''V1StGXR8_Z.png'' \<mapsto> [0x89, 0x50]],
      MANIFEST_PATH = None\<rparr>"

definition two_photos :: "photo_record jsobject" where
  "two_photos =
     [(js ''1234567890'', \<lparr>filename = js ''1234567890.jpg'', createdAt = 1700000000000\<rparr>),
      (js ''V1StGXR8_Z'', \<lparr>filename = js ''V1StGXR8_Z.png'', createdAt = 1690000000000\<rparr>)]"

definition constructor_file :: upload_file where
  "constructor_file =
     \<lparr>mimetype = js ''constructor'', originalname = js ''photo.png'', buffer = [0x89, 0x50]\<rparr>"

definition sample_file :: upload_file where
  "sample_file =
     \<lparr>mimetype = js ''image/jpeg'', originalname = js ''selfie.jpg'', buffer = [0xFF, 0xD8]\<rparr>"

definition failing_disk :: environment where
  "failing_disk =
     \<lparr>randomBytes = zero_pool, Date_now = 1700000000000, writeFile_ok = False,
      writeFileSync_ok = True\<rparr>"

definition working_disk :: environment where
  "working_disk =
     \<lparr>randomBytes = zero_pool, Date_now = 1700000000000, writeFile_ok = True,
      writeFileSync_ok = True\<rparr>"

section \<open>Properties\<close>

subsection \<open>Strings and objects\<close>

lemma length_js [simp]: "length (js s) = length s"
  by (simp add: js_def)

lemma js_inject [simp]: "js s = js t \<longleftrightarrow> s = t"
proof -
  have "inj (\<lambda>c::char. (of_nat (of_char c) :: uchar))"
  proof (rule injI)
    fix a b :: char
    assume "(of_nat (of_char a) :: uchar) = of_nat (of_char b)"
    then have "unat (of_nat (of_char a) :: uchar) = unat (of_nat (of_char b) :: uchar)"
      by simp
    moreover have "(of_char a :: nat) < 65536" "(of_char b :: nat) < 65536"
      using nat_of_char_less_256 [of a] nat_of_char_less_256 [of b] by linarith+
    ultimately have "(of_char a :: nat) = of_char b"
      by (simp add: unat_of_nat)
    then show "a = b" by simp
  qed
  then show ?thesis
    unfolding js_def by (simp add: inj_map_eq_map)
qed

lemma map_of_js_put: "map_of (js_put k v ps) = (map_of ps)(k \<mapsto> v)"
  by (induction ps) (auto simp: fun_eq_iff)

lemma length_nanoid [simp]: "length (nanoid n pool) = n"
  by (simp add: nanoid_def)

lemma nanoid_zero_pool: "nanoid 10 zero_pool = js ''uuuuuuuuuu''"
  by (simp add: nanoid_def zero_pool_def urlAlphabet_def js_def upt_rec)

lemma slash_not_inherited: "0x2F \<in> set k \<Longrightarrow> k \<notin> set Object_prototype"
  by (auto simp: Object_prototype_def js_def)

lemma mimeToExt_nonempty: "map_of mimeToExt k = Some e \<Longrightarrow> e \<noteq> []"
  by (auto simp: mimeToExt_def js_def split: if_splits)

subsection \<open>The enumeration order of an object\<close>

lemma key_before_irrefl: "\<not> key_before k k"
  by (simp add: key_before_def split: option.splits)

lemma key_before_asym: "key_before a b \<Longrightarrow> \<not> key_before b a"
  by (auto simp: key_before_def split: option.splits)

lemma key_before_trans: "key_before a b \<Longrightarrow> key_before b c \<Longrightarrow> key_before a c"
  by (auto simp: key_before_def split: option.splits)

lemma keys_js_put: "fst ` set (js_put k v ps) = insert k (fst ` set ps)"
proof -
  have "fst ` set (js_put k v ps) = dom (map_of (js_put k v ps))"
    by (simp add: dom_map_of_conv_image_fst)
  also have "\<dots> = insert k (dom (map_of ps))"
    by (simp add: map_of_js_put)
  finally show ?thesis
    by (simp add: dom_map_of_conv_image_fst)
qed

lemma enumerated_Cons:
  "enumerated ((k, v) # ps) \<longleftrightarrow>
     (\<forall>b\<in>set ps. k \<noteq> fst b \<and> \<not> key_before (fst b) k) \<and> enumerated ps"
  by (simp add: enumerated_def)

lemma enumerated_js_put: "enumerated ps \<Longrightarrow> enumerated (js_put k v ps)"
proof (induction ps)
  case Nil
  show ?case by (simp add: enumerated_def)
next
  case (Cons p ps)
  obtain k' v' where p: "p = (k', v')" by (cases p)
  from Cons.prems p have tail: "enumerated ps"
    and head: "\<forall>b\<in>set ps. k' \<noteq> fst b \<and> \<not> key_before (fst b) k'"
    by (simp_all add: enumerated_Cons)
  show ?case
  proof (cases "k' = k")
    case True
    with p head tail show ?thesis by (simp add: enumerated_Cons)
  next
    case diff: False
    show ?thesis
    proof (cases "key_before k k'")
      case True
      have "\<forall>b\<in>set ((k', v') # ps). k \<noteq> fst b \<and> \<not> key_before (fst b) k"
      proof
        fix b assume b: "b \<in> set ((k', v') # ps)"
        show "k \<noteq> fst b \<and> \<not> key_before (fst b) k"
        proof (cases "b = (k', v')")
          case True
          with diff \<open>key_before k k'\<close> show ?thesis
            by (auto dest: key_before_asym)
        next
          case False
          with b have "b \<in> set ps" by simp
          with head have h: "k' \<noteq> fst b" "\<not> key_before (fst b) k'" by auto
          from h(2) \<open>key_before k k'\<close> have "k \<noteq> fst b" by auto
          moreover from h(2) \<open>key_before k k'\<close> have "\<not> key_before (fst b) k"
            by (auto dest: key_before_trans)
          ultimately show ?thesis by simp
        qed
      qed
      with True diff p head tail show ?thesis
        by (simp add: enumerated_Cons)
    next
      case False
      have "\<forall>b\<in>set (js_put k v ps). k' \<noteq> fst b \<and> \<not> key_before (fst b) k'"
      proof
        fix b assume "b \<in> set (js_put k v ps)"
        then have "fst b \<in> insert k (fst ` set ps)"
          using keys_js_put [of k v ps] by auto
        with head diff False show "k' \<noteq> fst b \<and> \<not> key_before (fst b) k'"
          by auto
      qed
      with False diff p Cons.IH [OF tail] show ?thesis
        by (simp add: enumerated_Cons)
    qed
  qed
qed

lemma enumerated_distinct: "enumerated m \<Longrightarrow> distinct (map fst m)"
proof (induction m)
  case Nil
  show ?case by simp
next
  case (Cons p m)
  obtain k v where p: "p = (k, v)" by (cases p)
  with Cons.prems have "\<forall>b\<in>set m. k \<noteq> fst b" and "enumerated m"
    by (simp_all add: enumerated_Cons)
  with Cons.IH p show ?case
    by auto
qed

subsection \<open>Numerals\<close>

lemma unat_digit: "d < 10 \<Longrightarrow> unat (digit d) = 48 + d"
  unfolding digit_def by (simp add: unat_of_nat del: of_nat_add)

lemma digit_is_digit: "d < 10 \<Longrightarrow> is_digit (digit d)"
  by (simp add: is_digit_def word_le_nat_alt unat_digit)

lemma digit_val_digit: "d < 10 \<Longrightarrow> digit_val (digit d) = d"
  by (simp add: digit_val_def unat_digit)

lemma digits_nonempty: "digits n \<noteq> []"
  by (subst digits.simps) simp

lemma digits_all_digit: "list_all is_digit (digits n)"
  by (induction n rule: digits.induct) (subst digits.simps, simp add: digit_is_digit)

lemma nat_of_digits_snoc: "nat_of_digits (ds @ [c]) = 10 * nat_of_digits ds + digit_val c"
  by (simp add: nat_of_digits_def)

lemma nat_of_digits_digits: "nat_of_digits (digits n) = n"
proof (induction n rule: digits.induct)
  case (1 n)
  show ?case
  proof (cases "n < 10")
    case True
    then show ?thesis
      by (subst digits.simps) (simp add: nat_of_digits_def digit_val_digit)
  next
    case False
    with 1 show ?thesis
      by (subst digits.simps) (simp add: nat_of_digits_snoc digit_val_digit)
  qed
qed

lemma hd_digits: "0 < n \<Longrightarrow> hd (digits n) \<noteq> 0x30"
proof (induction n rule: digits.induct)
  case (1 n)
  show ?case
  proof (cases "n < 10")
    case True
    with "1.prems" have "unat (digit n) \<noteq> unat (0x30 :: uchar)"
      by (simp add: unat_digit)
    then have "digit n \<noteq> 0x30"
      by auto
    with True show ?thesis
      by (subst digits.simps) simp
  next
    case False
    then have "0 < n div 10" by simp
    with 1 False have "hd (digits (n div 10)) \<noteq> 0x30" by simp
    with False show ?thesis
      by (subst digits.simps) (simp add: digits_nonempty)
  qed
qed

lemma length_digits: "0 < k \<Longrightarrow> n < 10 ^ k \<Longrightarrow> length (digits n) \<le> k"
proof (induction n arbitrary: k rule: digits.induct)
  case (1 n)
  show ?case
  proof (cases "n < 10")
    case True
    with "1.prems" show ?thesis
      by (subst digits.simps) simp
  next
    case False
    from "1.prems" obtain j where k: "k = Suc j"
      by (cases k) auto
    have j: "0 < j"
    proof (rule ccontr)
      assume "\<not> 0 < j"
      with k "1.prems" False show False by simp
    qed
    from k "1.prems" have "n < 10 ^ j * 10"
      by simp
    then have "n div 10 < 10 ^ j"
      by (rule less_mult_imp_div_less)
    with 1 False j have "length (digits (n div 10)) \<le> j" by simp
    with False k show ?thesis
      by (subst digits.simps) simp
  qed
qed

lemma takeWhile_digits:
  "list_all is_digit ds \<Longrightarrow> number_end r \<Longrightarrow> takeWhile is_digit (ds @ r) = ds"
  by (cases r) (auto simp: number_end_def list_all_iff takeWhile_append2)

lemma dropWhile_digits:
  "list_all is_digit ds \<Longrightarrow> number_end r \<Longrightarrow> dropWhile is_digit (ds @ r) = r"
  by (cases r) (auto simp: number_end_def list_all_iff dropWhile_append2)

lemma nat_of_digits_Nil: "nat_of_digits [] = 0"
  by (simp add: nat_of_digits_def)

lemma not_minus_digit: "is_digit c \<Longrightarrow> c \<noteq> 0x2D"
  by (auto simp: is_digit_def)

lemma scan_number_digits:
  assumes ds: "list_all is_digit ds" "ds \<noteq> []" "hd ds = 0x30 \<longrightarrow> length ds = 1"
    and r: "number_end r"
  shows "scan_number (ds @ r) = Some (Integer (int (nat_of_digits ds)), r)"
proof -
  from ds obtain d ds' where dd: "ds = d # ds'" by (cases ds) auto
  with ds have d: "is_digit d" by simp
  then have nm: "d \<noteq> 0x2D" by (rule not_minus_digit)
  have t: "takeWhile is_digit (ds @ r) = ds" and dr: "dropWhile is_digit (ds @ r) = r"
    using ds r by (simp_all add: takeWhile_digits dropWhile_digits)
  have r1: "\<not> (r \<noteq> [] \<and> hd r = 0x2E)" and r2: "\<not> (r \<noteq> [] \<and> (hd r = 0x65 \<or> hd r = 0x45))"
    using r by (cases r; simp add: number_end_def)+
  have neg: "\<not> (ds @ r \<noteq> [] \<and> hd (ds @ r) = 0x2D)"
    using dd nm by simp
  have lz: "\<not> (ds = [] \<or> (hd ds = 0x30 \<and> 1 < length ds))"
    using ds by auto
  show ?thesis
    unfolding scan_number_def Let_def
    by (simp only: neg t dr r1 r2 lz if_False if_True simp_thms append_Nil2 list.size)
       (simp add: make_number_def nat_of_digits_Nil)
qed

lemma scan_number_negative:
  assumes ds: "list_all is_digit ds" "ds \<noteq> []" "hd ds = 0x30 \<longrightarrow> length ds = 1"
    and r: "number_end r"
  shows "scan_number (0x2D # ds @ r) = Some (Integer (- int (nat_of_digits ds)), r)"
proof -
  have t: "takeWhile is_digit (ds @ r) = ds" and dr: "dropWhile is_digit (ds @ r) = r"
    using ds r by (simp_all add: takeWhile_digits dropWhile_digits)
  have r1: "\<not> (r \<noteq> [] \<and> hd r = 0x2E)" and r2: "\<not> (r \<noteq> [] \<and> (hd r = 0x65 \<or> hd r = 0x45))"
    using r by (cases r; simp add: number_end_def)+
  have neg: "(0x2D # ds @ r \<noteq> [] \<and> hd (0x2D # ds @ r) = 0x2D)"
    by simp
  have tl: "tl (0x2D # ds @ r) = ds @ r" by simp
  have lz: "\<not> (ds = [] \<or> (hd ds = 0x30 \<and> 1 < length ds))"
    using ds by auto
  show ?thesis
    unfolding scan_number_def Let_def
    by (simp only: neg tl t dr r1 r2 lz if_False if_True simp_thms append_Nil2 list.size)
       (simp add: make_number_def nat_of_digits_Nil)
qed

lemma scan_number_Integer:
  assumes "\<bar>i\<bar> < 1000000000000000000000" and "number_end r"
  shows "scan_number (Number_toString (Integer i) @ r) = Some (Integer i, r)"
proof -
  let ?ds = "digits (nat \<bar>i\<bar>)"
  have "nat \<bar>i\<bar> < 10 ^ 21"
    using assms(1) by simp
  then have len: "length ?ds \<le> 21"
    by (intro length_digits) simp_all
  have lead: "hd ?ds = 0x30 \<longrightarrow> length ?ds = 1"
  proof
    assume "hd ?ds = 0x30"
    then have "nat \<bar>i\<bar> = 0"
      using hd_digits [of "nat \<bar>i\<bar>"] by auto
    then show "length ?ds = 1"
      by (simp add: digits.simps)
  qed
  show ?thesis
  proof (cases "i < 0")
    case True
    then have "Number_toString (Integer i) @ r = 0x2D # ?ds @ r"
      using len by (simp add: Number_toString_def Let_def)
    with True show ?thesis
      using scan_number_negative [OF digits_all_digit digits_nonempty lead assms(2)]
      by (simp add: nat_of_digits_digits)
  next
    case False
    then have "Number_toString (Integer i) @ r = ?ds @ r"
      using len by (simp add: Number_toString_def Let_def)
    with False show ?thesis
      using scan_number_digits [OF digits_all_digit digits_nonempty lead assms(2)]
      by (simp add: nat_of_digits_digits)
  qed
qed

lemma hd_Number_toString:
  "\<bar>i\<bar> < 1000000000000000000000 \<Longrightarrow>
   \<exists>c cs. Number_toString (Integer i) = c # cs \<and> (c = 0x2D \<or> is_digit c)"
proof -
  assume a: "\<bar>i\<bar> < 1000000000000000000000"
  let ?ds = "digits (nat \<bar>i\<bar>)"
  have "nat \<bar>i\<bar> < 10 ^ 21"
    using a by simp
  then have len: "length ?ds \<le> 21"
    by (intro length_digits) simp_all
  obtain d ds' where dd: "?ds = d # ds'"
    using digits_nonempty [of "nat \<bar>i\<bar>"] by (cases ?ds) auto
  moreover have "is_digit d"
    using digits_all_digit [of "nat \<bar>i\<bar>"] dd by simp
  ultimately show ?thesis
    using len by (cases "i < 0") (simp_all add: Number_toString_def Let_def)
qed

subsection \<open>String literals\<close>

lemma unat_hex_digit: "n < 16 \<Longrightarrow> unat (hex_digit n) = (if n < 10 then 48 + n else 87 + n)"
  unfolding hex_digit_def by (simp add: unat_of_nat del: of_nat_add)

lemma hex_val_hex_digit: "n < 16 \<Longrightarrow> hex_val (hex_digit n) = Some n"
  by (simp add: hex_val_def word_le_nat_alt unat_hex_digit)

lemma hex_recombine:
  "((n div 4096 * 16 + n div 256 mod 16) * 16 + n div 16 mod 16) * 16 + n mod 16 = (n::nat)"
proof -
  have a: "n div 256 = n div 16 div 16" and b: "n div 4096 = n div 16 div 16 div 16"
    by (simp_all add: div_mult2_eq)
  have "n div 16 div 16 div 16 * 16 + n div 16 div 16 mod 16 = n div 16 div 16"
    by (rule div_mult_mod_eq)
  moreover have "n div 16 div 16 * 16 + n div 16 mod 16 = n div 16"
    by (rule div_mult_mod_eq)
  moreover have "n div 16 * 16 + n mod 16 = n"
    by (rule div_mult_mod_eq)
  ultimately show ?thesis
    unfolding a b by simp
qed

lemma hex4_digits:
  "hex4 [hex_digit (unat c div 4096), hex_digit (unat c div 256 mod 16),
         hex_digit (unat c div 16 mod 16), hex_digit (unat c mod 16)] = Some c"
proof -
  have "unat c < 65536"
    using unsigned_less [of c, where ?'a = nat] by simp
  then have "unat c div 4096 < 16"
    by simp
  then have "hex4 [hex_digit (unat c div 4096), hex_digit (unat c div 256 mod 16),
         hex_digit (unat c div 16 mod 16), hex_digit (unat c mod 16)]
      = Some (of_nat (((unat c div 4096 * 16 + unat c div 256 mod 16) * 16
                        + unat c div 16 mod 16) * 16 + unat c mod 16))"
    by (simp add: hex4_def hex_val_hex_digit del: of_nat_add of_nat_mult)
  also have "\<dots> = Some (of_nat (unat c))"
    by (simp only: hex_recombine)
  finally show ?thesis
    by simp
qed

lemma scan_unicode_escape:
  "scan_string (unicode_escape c @ r) = cons_unit c (scan_string r)"
  by (simp add: unicode_escape_def hex4_digits)

lemma scan_raw:
  "c \<noteq> 0x22 \<Longrightarrow> c \<noteq> 0x5C \<Longrightarrow> \<not> c < 0x20 \<Longrightarrow>
   scan_string (c # r) = cons_unit c (scan_string r)"
  by simp

lemma scan_quote_unit:
  "scan_string (quote_unit c @ r) = cons_unit c (scan_string r)"
  by (simp add: quote_unit_def scan_unicode_escape unescape_def)

lemma surrogate_raw:
  "is_high_surrogate c \<or> is_low_surrogate c \<Longrightarrow> c \<noteq> 0x22 \<and> c \<noteq> 0x5C \<and> \<not> c < 0x20"
  by (auto simp: is_high_surrogate_def is_low_surrogate_def word_le_nat_alt word_less_nat_alt)

lemma scan_quote_units:
  "scan_string (quote_units s @ 0x22 # r) = Some (s, r)"
proof (induction s rule: quote_units.induct)
  case 1
  show ?case by simp
next
  case (2 c)
  show ?case
    by (simp add: scan_unicode_escape scan_quote_unit cons_unit_def del: scan_string.simps)
       simp
next
  case (3 c d cs)
  show ?case
  proof (cases "is_high_surrogate c")
    case True
    note high = this
    show ?thesis
    proof (cases "is_low_surrogate d")
      case True
      with high have "scan_string (c # d # quote_units cs @ 0x22 # r)
          = cons_unit c (cons_unit d (scan_string (quote_units cs @ 0x22 # r)))"
        using surrogate_raw [of c] surrogate_raw [of d]
        by (simp add: scan_raw del: scan_string.simps)
      with high True 3 show ?thesis
        by (simp add: cons_unit_def del: scan_string.simps)
    next
      case False
      with high 3 show ?thesis
        by (simp add: scan_unicode_escape cons_unit_def del: scan_string.simps)
    qed
  next
    case False
    with 3 show ?thesis
      by (simp add: scan_unicode_escape scan_quote_unit cons_unit_def del: scan_string.simps)
  qed
qed

subsection \<open>The tokens of a printed value\<close>

lemma prepend_Nil [simp]: "prepend [] res = res"
  by (simp add: prepend_def split: option.splits)

lemma prepend_append: "prepend (ts @ us) res = prepend ts (prepend us res)"
  by (simp add: prepend_def split: option.splits)

lemma cons_token_prepend: "cons_token t res = prepend [t] res"
  by (simp add: cons_token_def prepend_def split: option.splits)

lemma prepend_Cons: "prepend (t # ts) res = prepend [t] (prepend ts res)"
  by (simp add: prepend_def split: option.splits)

lemma tokenize_space: "tokenize (0x20 # cs) = tokenize cs" and tokenize_newline: "tokenize (0x0A # cs) = tokenize cs"
  by simp_all

lemma tokenize_punctuation:
  "tokenize (0x7B # cs) = prepend [TLBrace] (tokenize cs)"
  "tokenize (0x7D # cs) = prepend [TRBrace] (tokenize cs)"
  "tokenize (0x5B # cs) = prepend [TLBracket] (tokenize cs)"
  "tokenize (0x5D # cs) = prepend [TRBracket] (tokenize cs)"
  "tokenize (0x3A # cs) = prepend [TColon] (tokenize cs)"
  "tokenize (0x2C # cs) = prepend [TComma] (tokenize cs)"
  by (simp_all add: cons_token_prepend)

lemma tokenize_quote:
  "tokenize (0x22 # cs) =
     (case scan_string cs of None \<Rightarrow> None | Some (s, r) \<Rightarrow> prepend [TString s] (tokenize r))"
  by (simp add: cons_token_prepend split: option.splits)

lemma tokenize_numeral:
  assumes "c = 0x2D \<or> is_digit c"
  shows "tokenize (c # cs) =
     (case scan_number (c # cs) of None \<Rightarrow> None | Some (n, r) \<Rightarrow> prepend [TNumber n] (tokenize r))"
proof -
  from assms have "c \<noteq> 0x20" "c \<noteq> 0x09" "c \<noteq> 0x0A" "c \<noteq> 0x0D" "c \<noteq> 0x7B" "c \<noteq> 0x7D"
    "c \<noteq> 0x5B" "c \<noteq> 0x5D" "c \<noteq> 0x3A" "c \<noteq> 0x2C" "c \<noteq> 0x22"
    by (auto simp: is_digit_def)
  with assms show ?thesis
    by (simp add: cons_token_prepend split: option.splits)
qed

lemma tokenize_keywords:
  "tokenize (js ''null'' @ r) = prepend [TNull] (tokenize r)"
  "tokenize (js ''true'' @ r) = prepend [TTrue] (tokenize r)"
  "tokenize (js ''false'' @ r) = prepend [TFalse] (tokenize r)"
  by (simp_all add: js_def cons_token_prepend is_digit_def)

declare tokenize.simps [simp del]

lemma tokenize_blank: "blank ws \<Longrightarrow> tokenize (ws @ r) = tokenize r"
  by (induction ws) (auto simp: blank_def tokenize_space)

lemma blank_gap: "blank ind \<Longrightarrow> blank (ind @ gap)"
  by (auto simp: blank_def gap_def)

lemma tokenize_QuoteJSONString: "tokenize (QuoteJSONString s @ r) = prepend [TString s] (tokenize r)"
  by (simp add: QuoteJSONString_def tokenize_quote scan_quote_units)

lemma tokenize_Number:
  assumes "\<bar>i\<bar> < 1000000000000000000000" and "number_end r"
  shows "tokenize (Number_toString (Integer i) @ r) = prepend [TNumber (Integer i)] (tokenize r)"
proof -
  from hd_Number_toString [OF assms(1)] obtain c cs where
    c: "Number_toString (Integer i) = c # cs" "c = 0x2D \<or> is_digit c"
    by blast
  have "tokenize (c # cs @ r) =
      (case scan_number (c # cs @ r) of None \<Rightarrow> None
       | Some (n, r') \<Rightarrow> prepend [TNumber n] (tokenize r'))"
    using c(2) by (rule tokenize_numeral)
  moreover have "scan_number (c # cs @ r) = Some (Integer i, r)"
    using scan_number_Integer [OF assms] c(1) by simp
  ultimately show ?thesis
    using c(1) by simp
qed

lemma number_end_simps:
  "number_end []" "number_end (0x2C # r)" "number_end (0x0A # r)" "number_end (0x5D # r)"
  "number_end (0x7D # r)"
  by (simp_all add: number_end_def is_digit_def)

lemma number_end_elements:
  "number_end r \<Longrightarrow> number_end (stringify_elements ind xs @ r)"
  by (cases xs) (simp_all add: separator_def number_end_simps)

lemma number_end_members:
  "number_end r \<Longrightarrow> number_end (stringify_members ind ms @ r)"
  by (cases ms) (auto simp: separator_def number_end_simps)

lemma tokenize_separator: "blank ind \<Longrightarrow> tokenize (separator ind @ r) = prepend [TComma] (tokenize r)"
  by (simp add: separator_def tokenize_punctuation tokenize_newline tokenize_blank)

lemma blank_gap0: "blank gap"
  by (simp add: blank_def gap_def)

lemma tokenize_stringify:
  "canonical v \<Longrightarrow> blank ind \<Longrightarrow> number_end r \<Longrightarrow>
     tokenize (stringify ind v @ r) = prepend (tokens v) (tokenize r)"
  "canonical_elements xs \<Longrightarrow> blank ind \<Longrightarrow> number_end r \<Longrightarrow>
     tokenize (stringify_elements ind xs @ r) = prepend (tokens_elements xs) (tokenize r)"
  "canonical_members ms \<Longrightarrow> blank ind \<Longrightarrow> number_end r \<Longrightarrow>
     tokenize (stringify_members ind ms @ r) = prepend (tokens_members ms) (tokenize r)"
proof (induction ind v and ind xs and ind ms arbitrary: r and r and r
    rule: stringify_stringify_elements_stringify_members.induct)
  case (1 ind)
  show ?case by (simp add: tokenize_keywords)
next
  case (2 ind b)
  show ?case by (simp add: tokenize_keywords)
next
  case (3 ind n)
  then show ?case
    by (cases n) (simp_all add: tokenize_Number)
next
  case (4 ind s)
  show ?case by (simp add: tokenize_QuoteJSONString)
next
  case (5 ind)
  show ?case
    by (simp add: js_def tokenize_punctuation prepend_append [symmetric])
next
  case (6 ind x xs)
  let ?tail = "stringify_elements (ind @ gap) xs @ [0x0A] @ ind @ [0x5D] @ r"
  from "6.prems" have cx: "canonical x" and cxs: "canonical_elements xs"
    by simp_all
  have b: "blank (ind @ gap)"
    using "6.prems" by (simp add: blank_gap)
  have e1: "number_end ([0x0A] @ ind @ [0x5D] @ r)"
    by (simp add: number_end_simps)
  have e2: "number_end ?tail"
    using number_end_elements [OF e1] by simp
  have "tokenize (stringify ind (JArr (x # xs)) @ r)
      = prepend [TLBracket] (tokenize (stringify (ind @ gap) x @ ?tail))"
    using "6.prems"(2) blank_gap0 by (simp add: tokenize_punctuation tokenize_newline tokenize_blank)
  also have "tokenize (stringify (ind @ gap) x @ ?tail) = prepend (tokens x) (tokenize ?tail)"
    using cx b e2 by (rule "6.IH"(1))
  also have "tokenize ?tail
      = prepend (tokens_elements xs) (tokenize ([0x0A] @ ind @ [0x5D] @ r))"
    using cxs b e1 by (rule "6.IH"(2))
  also have "tokenize ([0x0A] @ ind @ [0x5D] @ r) = prepend [TRBracket] (tokenize r)"
    using "6.prems" by (simp add: tokenize_newline tokenize_blank tokenize_punctuation)
  finally show ?case
    by (simp add: prepend_append [symmetric])
next
  case (7 ind)
  show ?case
    by (simp add: js_def tokenize_punctuation prepend_append [symmetric])
next
  case (8 ind k v ms)
  let ?tail = "stringify_members (ind @ gap) ms @ [0x0A] @ ind @ [0x7D] @ r"
  from "8.prems" have cv: "canonical v" and cms: "canonical_members ms"
    by simp_all
  have b: "blank (ind @ gap)"
    using "8.prems" by (simp add: blank_gap)
  have e1: "number_end ([0x0A] @ ind @ [0x7D] @ r)"
    by (simp add: number_end_simps)
  have e2: "number_end ?tail"
    using number_end_members [OF e1] by simp
  have "tokenize (stringify ind (JObj ((k, v) # ms)) @ r)
      = prepend [TLBrace, TString k, TColon] (tokenize (stringify (ind @ gap) v @ ?tail))"
    using "8.prems"(2) blank_gap0
    by (simp add: tokenize_punctuation tokenize_newline tokenize_space tokenize_blank tokenize_QuoteJSONString
        prepend_append [symmetric])
  also have "tokenize (stringify (ind @ gap) v @ ?tail) = prepend (tokens v) (tokenize ?tail)"
    using cv b e2 by (rule "8.IH"(1))
  also have "tokenize ?tail
      = prepend (tokens_members ms) (tokenize ([0x0A] @ ind @ [0x7D] @ r))"
    using cms b e1 by (rule "8.IH"(2))
  also have "tokenize ([0x0A] @ ind @ [0x7D] @ r) = prepend [TRBrace] (tokenize r)"
    using "8.prems" by (simp add: tokenize_newline tokenize_blank tokenize_punctuation)
  finally show ?case
    by (simp add: prepend_append [symmetric])
next
  case (9 ind)
  show ?case by simp
next
  case (10 ind x xs)
  let ?tail = "stringify_elements ind xs @ r"
  from "10.prems" have cx: "canonical x" and cxs: "canonical_elements xs"
    by simp_all
  have e2: "number_end ?tail"
    using "10.prems" by (simp add: number_end_elements)
  have "tokenize (stringify_elements ind (x # xs) @ r)
      = prepend [TComma] (tokenize (stringify ind x @ ?tail))"
    using "10.prems" by (simp add: tokenize_separator)
  also have "tokenize (stringify ind x @ ?tail) = prepend (tokens x) (tokenize ?tail)"
    using cx "10.prems"(2) e2 by (rule "10.IH"(1))
  also have "tokenize ?tail = prepend (tokens_elements xs) (tokenize r)"
    using cxs "10.prems"(2,3) by (rule "10.IH"(2))
  finally show ?case
    by (simp add: prepend_append [symmetric])
next
  case (11 ind)
  show ?case by simp
next
  case (12 ind k v ms)
  let ?tail = "stringify_members ind ms @ r"
  from "12.prems" have cv: "canonical v" and cms: "canonical_members ms"
    by simp_all
  have e2: "number_end ?tail"
    using "12.prems" by (simp add: number_end_members)
  have "tokenize (stringify_members ind ((k, v) # ms) @ r)
      = prepend [TComma, TString k, TColon] (tokenize (stringify ind v @ ?tail))"
    using "12.prems"
    by (simp add: tokenize_separator tokenize_QuoteJSONString tokenize_punctuation tokenize_space
        prepend_append [symmetric])
  also have "tokenize (stringify ind v @ ?tail) = prepend (tokens v) (tokenize ?tail)"
    using cv "12.prems"(2) e2 by (rule "12.IH"(1))
  also have "tokenize ?tail = prepend (tokens_members ms) (tokenize r)"
    using cms "12.prems"(2,3) by (rule "12.IH"(2))
  finally show ?case
    by (simp add: prepend_append [symmetric])
qed

subsection \<open>Parsing a printed value\<close>

lemma js_put_append:
  "\<forall>a\<in>set ps. fst a \<noteq> k \<and> \<not> key_before k (fst a) \<Longrightarrow> js_put k v ps = ps @ [(k, v)]"
  by (induction ps) auto

lemma enumerated_new_key:
  "enumerated (obj @ (k, v) # ms) \<Longrightarrow> \<forall>a\<in>set obj. fst a \<noteq> k \<and> \<not> key_before k (fst a)"
  by (auto simp: enumerated_def sorted_wrt_append)

lemma tokens_start: "\<exists>t ts. tokens v = t # ts \<and> t \<noteq> TRBracket"
proof (cases v)
  case (JArr xs)
  then show ?thesis by (cases xs) simp_all
next
  case (JObj ms)
  then show ?thesis by (cases ms) auto
qed simp_all

lemma run_ArrayStart:
  "run (ArrayStart fs) (tokens v @ r) = run (Value (InArray [] # fs)) (tokens v @ r)"
proof -
  from tokens_start [of v] obtain t ts where "tokens v = t # ts" "t \<noteq> TRBracket"
    by blast
  then show ?thesis by simp
qed

lemma run_tokens:
  "canonical v \<Longrightarrow> run (Value fs) (tokens v @ ts) = run (deliver v fs) ts"
  "canonical_elements xs \<Longrightarrow>
     run (ArrayNext acc fs) (tokens_elements xs @ TRBracket # ts)
       = run (deliver (JArr (rev acc @ xs)) fs) ts"
  "canonical_members ms \<Longrightarrow> enumerated (obj @ ms) \<Longrightarrow>
     run (ObjectNext obj fs) (tokens_members ms @ TRBrace # ts)
       = run (deliver (JObj (obj @ ms)) fs) ts"
proof (induction v and xs and ms arbitrary: fs ts and acc fs ts and obj fs ts
    rule: tokens_tokens_elements_tokens_members.induct)
  case (6 x xs)
  from "6.prems" have cx: "canonical x" and cxs: "canonical_elements xs"
    by simp_all
  have "run (Value fs) (tokens (JArr (x # xs)) @ ts)
      = run (ArrayStart fs) (tokens x @ tokens_elements xs @ TRBracket # ts)"
    by simp
  also have "\<dots> = run (Value (InArray [] # fs)) (tokens x @ tokens_elements xs @ TRBracket # ts)"
    by (rule run_ArrayStart)
  also have "\<dots> = run (deliver x (InArray [] # fs)) (tokens_elements xs @ TRBracket # ts)"
    using cx by (rule "6.IH"(1))
  also have "\<dots> = run (ArrayNext [x] fs) (tokens_elements xs @ TRBracket # ts)"
    by simp
  also have "\<dots> = run (deliver (JArr (rev [x] @ xs)) fs) ts"
    using cxs by (rule "6.IH"(2))
  finally show ?case by simp
next
  case (8 k v ms)
  from "8.prems" have cv: "canonical v" and cms: "canonical_members ms"
    and en: "enumerated ([(k, v)] @ ms)"
    by simp_all
  have "run (Value fs) (tokens (JObj ((k, v) # ms)) @ ts)
      = run (Value (InObject [] k # fs)) (tokens v @ tokens_members ms @ TRBrace # ts)"
    by simp
  also have "\<dots> = run (deliver v (InObject [] k # fs)) (tokens_members ms @ TRBrace # ts)"
    using cv by (rule "8.IH"(1))
  also have "\<dots> = run (ObjectNext [(k, v)] fs) (tokens_members ms @ TRBrace # ts)"
    by simp
  also have "\<dots> = run (deliver (JObj ([(k, v)] @ ms)) fs) ts"
    using cms en by (rule "8.IH"(2))
  finally show ?case by simp
next
  case (10 x xs)
  from "10.prems" have cx: "canonical x" and cxs: "canonical_elements xs"
    by simp_all
  have "run (ArrayNext acc fs) (tokens_elements (x # xs) @ TRBracket # ts)
      = run (Value (InArray acc # fs)) (tokens x @ tokens_elements xs @ TRBracket # ts)"
    by simp
  also have "\<dots> = run (deliver x (InArray acc # fs)) (tokens_elements xs @ TRBracket # ts)"
    using cx by (rule "10.IH"(1))
  also have "\<dots> = run (ArrayNext (x # acc) fs) (tokens_elements xs @ TRBracket # ts)"
    by simp
  also have "\<dots> = run (deliver (JArr (rev (x # acc) @ xs)) fs) ts"
    using cxs by (rule "10.IH"(2))
  finally show ?case by simp
next
  case (12 k v ms)
  from "12.prems" have cv: "canonical v" and cms: "canonical_members ms"
    by simp_all
  have put: "js_put k v obj = obj @ [(k, v)]"
    using enumerated_new_key [OF "12.prems"(2)] by (rule js_put_append)
  have en: "enumerated ((obj @ [(k, v)]) @ ms)"
    using "12.prems"(2) by simp
  have "run (ObjectNext obj fs) (tokens_members ((k, v) # ms) @ TRBrace # ts)
      = run (Value (InObject obj k # fs)) (tokens v @ tokens_members ms @ TRBrace # ts)"
    by simp
  also have "\<dots> = run (deliver v (InObject obj k # fs)) (tokens_members ms @ TRBrace # ts)"
    using cv by (rule "12.IH"(1))
  also have "\<dots> = run (ObjectNext (obj @ [(k, v)]) fs) (tokens_members ms @ TRBrace # ts)"
    by (simp add: put)
  also have "\<dots> = run (deliver (JObj ((obj @ [(k, v)]) @ ms)) fs) ts"
    using cms en by (rule "12.IH"(2))
  finally show ?case by simp
qed simp_all

lemma JSON_parse_stringify:
  assumes "canonical v"
  shows "JSON_parse (JSON_stringify v) = Some v"
proof -
  have "tokenize (stringify [] v @ []) = prepend (tokens v) (tokenize [])"
    using assms by (intro tokenize_stringify(1)) (simp_all add: blank_def number_end_simps)
  then have "tokenize (JSON_stringify v) = Some (tokens v)"
    by (simp add: JSON_stringify_def prepend_def tokenize.simps)
  moreover have "run (Value []) (tokens v @ []) = run (deliver v []) []"
    using assms by (rule run_tokens(1))
  ultimately show ?thesis
    by (simp add: JSON_parse_def)
qed

subsection \<open>The manifest as JSON\<close>

lemma array_index_filename: "array_index (js ''filename'') = None"
  and array_index_createdAt: "array_index (js ''createdAt'') = None"
  by (simp_all add: array_index_def js_def is_digit_def)

lemma canonical_record_json: "time_value (createdAt r) \<Longrightarrow> canonical (record_json r)"
  by (simp add: record_json_def enumerated_def key_before_def array_index_createdAt time_value_def)

lemma canonical_members_manifest:
  "list_all (\<lambda>kv. time_value (createdAt (snd kv))) m \<Longrightarrow>
   canonical_members (map (\<lambda>(k, r). (k, record_json r)) m)"
  by (induction m) (auto simp: canonical_record_json)

lemma enumerated_map: "enumerated (map (\<lambda>(k, r). (k, f r)) m) = enumerated m"
  by (simp add: enumerated_def sorted_wrt_map case_prod_beta)

lemma canonical_manifest_json: "photo_manifest m \<Longrightarrow> canonical (manifest_json m)"
  by (simp add: photo_manifest_def manifest_json_def canonical_members_manifest enumerated_map)

lemma json_record_record_json: "json_record (record_json r) = Some r"
  by (simp add: json_record_def record_json_def)

lemma json_records_manifest: "json_records (map (\<lambda>(k, r). (k, record_json r)) m) = Some m"
  by (induction m) (auto simp: json_record_record_json)

lemma json_manifest_manifest_json: "json_manifest (manifest_json m) = Some m"
  by (simp add: json_manifest_def manifest_json_def json_records_manifest)

lemma meta_own:
  "enumerated m \<Longrightarrow> manifest s = m \<Longrightarrow> kv \<in> set m \<Longrightarrow> resolves base s kv"
proof -
  assume "enumerated m" "manifest s = m" "kv \<in> set m"
  then have "map_of (manifest s) (fst kv) = Some (snd kv)"
    using enumerated_distinct [of m] by (cases kv) simp
  then show ?thesis
    by (simp add: resolves_def meta_def js_get_def)
qed

subsection \<open>Loading and saving the manifest\<close>

text \<open>The enumeration order is an invariant of the manifest object.\<close>

lemma handle_enumerated:
  "enumerated (manifest s) \<Longrightarrow> enumerated (manifest (snd (handle base toBuffer req s)))"
  by (cases req)
     (auto simp: handle_def upload_def Let_def saveManifest_def enumerated_js_put
       split: option.splits)

text \<open>The text that \<open>saveManifest\<close> writes for a manifest of one record.\<close>

lemma saveManifest_text:
  "MANIFEST_PATH (saveManifest [(js ''ab'', \<lparr>filename = js ''ab.jpg'', createdAt = 17\<rparr>)] empty_server)
   = Some ([0x7B, 0x0A] @ js ''  \"ab\": {'' @ [0x0A] @ js ''    \"filename\": \"ab.jpg\",'' @ [0x0A]
        @ js ''    \"createdAt\": 17'' @ [0x0A] @ js ''  }'' @ [0x0A] @ js ''}'')"
  by (simp add: saveManifest_def JSON_stringify_def manifest_json_def record_json_def
      QuoteJSONString_def gap_def separator_def js_def Number_toString_def digits.simps
      digit_def quote_unit_def is_high_surrogate_def is_low_surrogate_def)

text \<open>
  C7. \<open>loadManifest\<close> returns the empty object when the manifest file cannot be read
  and when its text does not parse, the same value in both cases; it is a total function
  whose every result is a value, so nothing is raised to the caller.
\<close>

theorem loadManifest_never_fails:
  "loadManifest None = JObj []
   \<and> (JSON_parse raw = None \<longrightarrow> loadManifest (Some raw) = JObj [])"
  by (simp add: loadManifest_def)

text \<open>The theorem at a manifest file whose text is \<open>{oops\<close>.\<close>

theorem loadManifest_never_fails_witness:
  "JSON_parse (js ''{oops'') = None \<and> loadManifest (Some (js ''{oops'')) = JObj []"
proof -
  have a: "JSON_parse (js ''{oops'') = None"
    by (simp add: JSON_parse_def js_def tokenize.simps cons_token_def is_digit_def)
  with loadManifest_never_fails [of "js ''{oops''"] show ?thesis
    by simp
qed

text \<open>
  C6. For every manifest \<open>m\<close> of photo records, loading the manifest file after
  \<open>saveManifest m\<close> returns the JSON value of \<open>m\<close>; a process restarted on that file
  has exactly \<open>m\<close> as its manifest; and in it the metadata lookup of every id of \<open>m\<close>
  answers 200 with that id's record.
\<close>

theorem manifest_round_trip:
  assumes "photo_manifest m"
  shows "loadManifest (MANIFEST_PATH (saveManifest m s)) = manifest_json m
     \<and> restart (saveManifest m s) = Some ((saveManifest m s)\<lparr>manifest := m\<rparr>)
     \<and> list_all (resolves base ((saveManifest m s)\<lparr>manifest := m\<rparr>)) m"
proof -
  have parse: "JSON_parse (JSON_stringify (manifest_json m)) = Some (manifest_json m)"
    using assms by (intro JSON_parse_stringify canonical_manifest_json)
  then have load: "loadManifest (MANIFEST_PATH (saveManifest m s)) = manifest_json m"
    by (simp add: loadManifest_def saveManifest_def)
  moreover have "restart (saveManifest m s) = Some ((saveManifest m s)\<lparr>manifest := m\<rparr>)"
    by (simp add: restart_def load json_manifest_manifest_json)
  moreover have "list_all (resolves base ((saveManifest m s)\<lparr>manifest := m\<rparr>)) m"
    using assms by (auto simp: list_all_iff photo_manifest_def intro!: meta_own)
  ultimately show ?thesis by simp
qed

lemma array_index_samples:
  "array_index (js ''V1StGXR8_Z'') = None"
  "array_index (js ''1234567890'') = Some 1234567890"
proof -
  show "array_index (js ''V1StGXR8_Z'') = None"
    by (simp add: array_index_def js_def is_digit_def)
  have n: "nat_of_digits (js ''1234567890'') = 1234567890"
    by (simp add: nat_of_digits_def js_def digit_val_def)
  have d: "digits 1234567890 = js ''1234567890''"
    by (simp add: digits.simps digit_def js_def)
  show "array_index (js ''1234567890'') = Some 1234567890"
    unfolding array_index_def n d by (simp add: js_def is_digit_def)
qed

lemma photo_manifest_two_photos: "photo_manifest two_photos"
  by (simp add: photo_manifest_def two_photos_def enumerated_def key_before_def
      array_index_samples time_value_def)

text \<open>
  The theorem at a manifest of two photos, one of them under an id that is an array
  index.
\<close>

theorem manifest_round_trip_witness:
  "photo_manifest two_photos
   \<and> loadManifest (MANIFEST_PATH (saveManifest two_photos empty_server)) = manifest_json two_photos
   \<and> restart (saveManifest two_photos empty_server)
       = Some ((saveManifest two_photos empty_server)\<lparr>manifest := two_photos\<rparr>)
   \<and> meta (BASE_URL [] None) (js ''V1StGXR8_Z'')
         ((saveManifest two_photos empty_server)\<lparr>manifest := two_photos\<rparr>)
       = \<lparr>status = 200,
          body = Json [(js ''id'', js ''V1StGXR8_Z''),
                       (js ''imageUrl'', js ''/uploads/V1StGXR8_Z.png''),
                       (js ''viewUrl'', js ''http://localhost:3000/view/V1StGXR8_Z'')]\<rparr>"
proof -
  note rt = manifest_round_trip [OF photo_manifest_two_photos, of empty_server "BASE_URL [] None"]
  from rt have "resolves (BASE_URL [] None)
      ((saveManifest two_photos empty_server)\<lparr>manifest := two_photos\<rparr>)
      (js ''V1StGXR8_Z'', \<lparr>filename = js ''V1StGXR8_Z.png'', createdAt = 1690000000000\<rparr>)"
    by (simp add: two_photos_def)
  then have "meta (BASE_URL [] None) (js ''V1StGXR8_Z'')
         ((saveManifest two_photos empty_server)\<lparr>manifest := two_photos\<rparr>)
       = \<lparr>status = 200,
          body = Json [(js ''id'', js ''V1StGXR8_Z''),
                       (js ''imageUrl'', js ''/uploads/V1StGXR8_Z.png''),
                       (js ''viewUrl'', js ''http://localhost:3000/view/V1StGXR8_Z'')]\<rparr>"
    by (simp add: resolves_def BASE_URL_def PORT_def js_def)
  with rt photo_manifest_two_photos show ?thesis
    by simp
qed

lemma list_all_js_put:
  "P (k, v) \<Longrightarrow> list_all P ps \<Longrightarrow> list_all P (js_put k v ps)"
  by (induction ps) auto

lemma upload_photo_manifest:
  assumes "photo_manifest (manifest s)" and "time_value (Date_now env)"
  shows "photo_manifest (manifest (snd (upload base env fl s)))"
  using assms
  by (cases fl)
     (auto simp: upload_def Let_def saveManifest_def photo_manifest_def enumerated_js_put
       intro!: list_all_js_put)

text \<open>
  A restart after a successful upload finds the state the upload left: the manifest on
  disk is the manifest in memory.
\<close>

lemma restart_after_upload:
  assumes "photo_manifest (manifest s)" and "time_value (Date_now env)"
    and "writeFile_ok env" and "writeFileSync_ok env"
  shows "restart (snd (upload base env (Some f) s)) = Some (snd (upload base env (Some f) s))"
proof -
  let ?s' = "snd (upload base env (Some f) s)"
  have written: "MANIFEST_PATH ?s' = Some (JSON_stringify (manifest_json (manifest ?s')))"
    using assms(3,4) by (simp add: upload_def Let_def saveManifest_def)
  have "canonical (manifest_json (manifest ?s'))"
    using upload_photo_manifest [OF assms(1,2)] by (rule canonical_manifest_json)
  then have "JSON_parse (JSON_stringify (manifest_json (manifest ?s')))
      = Some (manifest_json (manifest ?s'))"
    by (rule JSON_parse_stringify)
  with written show ?thesis
    by (simp add: restart_def loadManifest_def json_manifest_manifest_json)
qed

subsection \<open>Uploads\<close>

text \<open>
  C1, as the code has it. An upload request that carries a file, when the write of the
  file and the write of the manifest both succeed, is answered 200 with the generated id
  and the view URL \<open>http://host:port/view/id\<close>; the bytes are stored in the uploads
  directory under \<open>id + ext\<close>; the manifest changes at the generated id only, which is
  bound to the record of that filename and of the clock's time; and the manifest file
  holds the text of the new manifest.
\<close>

theorem upload_stores_and_returns:
  assumes "writeFile_ok env" and "writeFileSync_ok env"
  shows "fst (upload (BASE_URL interfaces env_PORT) env (Some f) s) =
           \<lparr>status = 200,
            body = Json [(js ''id'', nanoid 10 (randomBytes env)),
                         (js ''viewUrl'', js ''http://'' @ getLocalIP interfaces @ js '':''
                            @ PORT env_PORT @ js ''/view/'' @ nanoid 10 (randomBytes env))]\<rparr>
         \<and> UPLOADS_DIR (snd (upload (BASE_URL interfaces env_PORT) env (Some f) s)) =
             (UPLOADS_DIR s)(nanoid 10 (randomBytes env) @ upload_ext f \<mapsto> buffer f)
         \<and> map_of (manifest (snd (upload (BASE_URL interfaces env_PORT) env (Some f) s))) =
             (map_of (manifest s))(nanoid 10 (randomBytes env) \<mapsto>
                \<lparr>filename = nanoid 10 (randomBytes env) @ upload_ext f,
                 createdAt = Date_now env\<rparr>)
         \<and> MANIFEST_PATH (snd (upload (BASE_URL interfaces env_PORT) env (Some f) s)) =
             Some (JSON_stringify (manifest_json
               (manifest (snd (upload (BASE_URL interfaces env_PORT) env (Some f) s)))))"
  using assms by (simp add: upload_def Let_def saveManifest_def map_of_js_put BASE_URL_def)

text \<open>
  The theorem at a sample upload: both writes succeed, and the response carries the id
  \<open>uuuuuuuuuu\<close> and its view URL.
\<close>

theorem upload_stores_and_returns_witness:
  "writeFile_ok working_disk \<and> writeFileSync_ok working_disk
   \<and> fst (upload (BASE_URL [] None) working_disk (Some sample_file) empty_server) =
       \<lparr>status = 200,
        body = Json [(js ''id'', js ''uuuuuuuuuu''),
                     (js ''viewUrl'', js ''http://localhost:3000/view/uuuuuuuuuu'')]\<rparr>"
proof -
  have ok: "writeFile_ok working_disk" "writeFileSync_ok working_disk"
    by (simp_all add: working_disk_def)
  have pool: "randomBytes working_disk = zero_pool"
    by (simp add: working_disk_def)
  show ?thesis
    using upload_stores_and_returns [OF ok, of "[]" None sample_file empty_server] ok
    by (simp add: pool nanoid_zero_pool PORT_def js_def)
qed

text \<open>
  C1 as it is stated fails: an upload that carries a file, on a disk that refuses the
  write of the file, is answered 500 and leaves the state as it was.
\<close>

theorem upload_write_failure:
  "upload (BASE_URL [] None) failing_disk (Some sample_file) empty_server =
     (\<lparr>status = 500, body = Json [(js ''error'', js ''Upload failed'')]\<rparr>, empty_server)"
  by (simp add: upload_def failing_disk_def Let_def)

text \<open>
  C3. An upload request with no file is answered 400 with the error
  \<open>No photo uploaded\<close>, and the state is returned as it was: the manifest, the uploads
  directory and the manifest file are unchanged.
\<close>

theorem upload_without_file:
  "upload base env None s =
     (\<lparr>status = 400, body = Json [(js ''error'', js ''No photo uploaded'')]\<rparr>, s)"
  by (simp add: upload_def)

text \<open>
  Outside the member names of \<open>Object.prototype\<close> the handler follows the three-step
  fallback of C5: the table entry of the content type, else the extension of the
  original filename when it is not empty, else \<open>.jpg\<close>. At such a name the table lookup
  finds the inherited member, which is truthy, and the extension is its text.
\<close>

lemma js_Nil: "js s = [] \<longleftrightarrow> s = []"
  by (simp add: js_def)

lemma extname_samples:
  "extname (js ''photo.png'') = js ''.png''"
  "extname (js ''a.gif'') = js ''.gif''"
  "extname (js ''a'') = []"
  by code_simp+

lemma upload_ext_unless_inherited:
  assumes "mimetype f \<notin> set Object_prototype"
  shows "upload_ext f = ext_by_fallback f"
  using assms mimeToExt_nonempty [of "mimetype f"]
  by (auto simp: upload_ext_def ext_by_fallback_def js_get_def extname_or_default_def
      split: option.splits)

lemma mimeToExt_not_inherited: "k \<in> set Object_prototype \<Longrightarrow> map_of mimeToExt k = None"
  by (auto simp: mimeToExt_def Object_prototype_def)

lemma upload_ext_inherited:
  assumes "mimetype f \<in> set Object_prototype"
  shows "upload_ext f = builtin_ToString (mimetype f)"
  using assms mimeToExt_not_inherited [OF assms]
  by (simp add: upload_ext_def js_get_def)

text \<open>
  The three steps, one file each: the table wins over the filename; a type that is not in
  the table leaves the choice to the filename; a filename without extension gives the
  default.
\<close>

lemma upload_ext_steps:
  "upload_ext \<lparr>mimetype = js ''image/png'', originalname = js ''a.gif'', buffer = b\<rparr>
     = js ''.png''"
  "upload_ext \<lparr>mimetype = js ''text/plain'', originalname = js ''a.gif'', buffer = b\<rparr>
     = js ''.gif''"
  "upload_ext \<lparr>mimetype = js ''text/plain'', originalname = js ''a'', buffer = b\<rparr>
     = js ''.jpg''"
  by (simp_all add: upload_ext_def js_get_def mimeToExt_def Object_prototype_def
      extname_or_default_def extname_samples js_Nil)

text \<open>
  C5, at the failing input. For a file whose declared content type is \<open>constructor\<close> and
  whose original name is \<open>photo.png\<close>, the three-step fallback gives \<open>.png\<close> (the type
  is not in the table, the filename has an extension), but the handler's extension is
  the text of the function \<open>Object\<close>, and the upload stores the record under that
  filename.
\<close>

theorem upload_ext_constructor:
  "upload_ext constructor_file = js ''function Object() { [native code] }''
   \<and> ext_by_fallback constructor_file = js ''.png''
   \<and> map_of (manifest (snd (upload (BASE_URL [] None) working_disk (Some constructor_file)
          empty_server))) (js ''uuuuuuuuuu'')
       = Some \<lparr>filename = js ''uuuuuuuuuufunction Object() { [native code] }'',
                createdAt = 1700000000000\<rparr>"
proof -
  have a: "upload_ext constructor_file = js ''function Object() { [native code] }''"
    by (simp add: upload_ext_def js_get_def mimeToExt_def Object_prototype_def
        constructor_file_def builtin_ToString_def js_def)
  have b: "ext_by_fallback constructor_file = js ''.png''"
    by (simp add: ext_by_fallback_def mimeToExt_def constructor_file_def extname_samples
        js_Nil)
  have c: "map_of (manifest (snd (upload (BASE_URL [] None) working_disk (Some constructor_file)
          empty_server))) (js ''uuuuuuuuuu'')
       = Some \<lparr>filename = js ''uuuuuuuuuu'' @ upload_ext constructor_file,
                createdAt = 1700000000000\<rparr>"
    by (simp add: upload_def Let_def working_disk_def saveManifest_def map_of_js_put
        nanoid_zero_pool)
  show ?thesis
    unfolding c a using b by (simp add: js_def)
qed

text \<open>
  C10. The id an upload generates has exactly ten characters, and when the file is
  written the manifest binds the id to a record whose filename is those ten characters
  followed by the chosen extension, the name under which the bytes are stored.
\<close>

theorem generated_id_length:
  assumes "writeFile_ok env"
  shows "length (nanoid 10 (randomBytes env)) = 10
     \<and> (\<exists>r. map_of (manifest (snd (upload base env (Some f) s))) (nanoid 10 (randomBytes env))
               = Some r
           \<and> take 10 (filename r) = nanoid 10 (randomBytes env)
           \<and> drop 10 (filename r) = upload_ext f
           \<and> UPLOADS_DIR (snd (upload base env (Some f) s)) (filename r) = Some (buffer f))"
  using assms by (simp add: upload_def Let_def saveManifest_def map_of_js_put)

text \<open>The theorem at the sample upload.\<close>

theorem generated_id_length_witness:
  "writeFile_ok working_disk
   \<and> length (nanoid 10 (randomBytes working_disk)) = 10
   \<and> (\<exists>r. map_of (manifest (snd (upload (BASE_URL [] None) working_disk (Some sample_file)
                empty_server)))
             (nanoid 10 (randomBytes working_disk)) = Some r
           \<and> take 10 (filename r) = nanoid 10 (randomBytes working_disk)
           \<and> drop 10 (filename r) = upload_ext sample_file
           \<and> UPLOADS_DIR (snd (upload (BASE_URL [] None) working_disk (Some sample_file)
                empty_server))
                (filename r) = Some (buffer sample_file))"
proof -
  have ok: "writeFile_ok working_disk"
    by (simp add: working_disk_def)
  show ?thesis
    using ok generated_id_length [OF ok, of "BASE_URL [] None" sample_file empty_server]
    by simp
qed

subsection \<open>Metadata lookup\<close>

text \<open>
  C2, at the failing input. On the empty manifest, the lookup of the id \<open>constructor\<close>
  is answered 200, with the image URL \<open>/uploads/undefined\<close>: the property read finds
  the member of \<open>Object.prototype\<close>.
\<close>

theorem meta_constructor:
  "meta (BASE_URL [] None) (js ''constructor'') empty_server
   = \<lparr>status = 200,
      body = Json [(js ''id'', js ''constructor''),
                   (js ''imageUrl'', js ''/uploads/undefined''),
                   (js ''viewUrl'', js ''http://localhost:3000/view/constructor'')]\<rparr>"
  by (simp add: meta_def js_get_def Object_prototype_def BASE_URL_def PORT_def js_def
      empty_server_def)

text \<open>
  For every id that does not name a member of \<open>Object.prototype\<close> the lookup does what
  C2 says: 404 exactly when the id is not a key of the manifest, and otherwise 200 with
  the id, the image URL under \<open>/uploads/\<close> and the view URL.
\<close>

lemma meta_unless_inherited:
  assumes "id' \<notin> set Object_prototype"
  shows "(status (meta base id' s) = 404 \<longleftrightarrow> map_of (manifest s) id' = None)
     \<and> (\<forall>r. map_of (manifest s) id' = Some r \<longrightarrow>
           meta base id' s =
             \<lparr>status = 200,
              body = Json [(js ''id'', id'), (js ''imageUrl'', js ''/uploads/'' @ filename r),
                           (js ''viewUrl'', base @ js ''/view/'' @ id')]\<rparr>)"
  using assms by (auto simp: meta_def js_get_def split: option.splits)

subsection \<open>QR codes\<close>

text \<open>
  C8, as the code has it. The QR endpoint answers 400 when the text parameter is
  missing or is the empty string; otherwise it answers with the PNG the encoder returns
  for the text at width 256 and margin 1, or 500 when the encoder fails.
\<close>

theorem qr_amended: "qr toBuffer query_text = qr_missing_or_empty toBuffer query_text"
  by (simp add: qr_def qr_missing_or_empty_def truthy_def split: option.splits)

text \<open>
  C8 as it is stated fails at a text parameter that is present and empty, with an
  encoder that fails: the answer is 400, not 500.
\<close>

theorem qr_present_but_empty_counterexample:
  "qr failing_encoder (Some (QString [])) \<noteq> qr_as_claimed failing_encoder (Some (QString []))"
  by (simp add: qr_def qr_as_claimed_def failing_encoder_def truthy_def)

text \<open>
  C9. A text parameter that is present and empty is answered 400 \<open>Missing text\<close>, as a
  missing parameter is, whatever the encoder: the encoder is not consulted.
\<close>

theorem qr_empty_text:
  "qr toBuffer (Some (QString [])) = \<lparr>status = 400, body = Text (js ''Missing text'')\<rparr>
   \<and> qr toBuffer (Some (QString [])) = qr toBuffer None"
  by (simp add: qr_def truthy_def)

subsection \<open>Manifest entries are kept\<close>

lemma handle_keeps_binding:
  assumes "map_of (manifest s) k = Some r" and "no_collision req s"
  shows "map_of (manifest (snd (handle base toBuffer req s))) k = Some r"
proof (cases req)
  case (Upload env fl)
  show ?thesis
  proof (cases fl)
    case None
    with Upload assms show ?thesis by (simp add: handle_def upload_def)
  next
    case (Some f)
    with Upload assms have "nanoid 10 (randomBytes env) \<noteq> k"
      by (auto simp: no_collision_def)
    with Upload Some assms show ?thesis
      by (simp add: handle_def upload_def Let_def saveManifest_def map_of_js_put)
  qed
qed (use assms in \<open>simp_all add: handle_def\<close>)

text \<open>The same along any sequence of requests none of which collides.\<close>

lemma serve_keeps_binding:
  "map_of (manifest s) k = Some r \<Longrightarrow> no_collisions base toBuffer reqs s
   \<Longrightarrow> map_of (manifest (serve base toBuffer reqs s)) k = Some r"
  by (induction reqs arbitrary: s) (simp_all add: handle_keeps_binding)

text \<open>
  C4. In every state of the server, every binding of an id to a record that the manifest
  holds is still there, unchanged, after any one request (upload, metadata lookup, view,
  QR), provided that the request is not an upload whose generated id is already a key
  of the manifest: the invariant rests on ids not colliding.
\<close>

theorem bindings_preserved:
  assumes "map_of (manifest s) k = Some r" and "no_collision req s"
  shows "map_of (manifest (snd (handle base toBuffer req s))) k = Some r"
  using assms by (rule handle_keeps_binding)

text \<open>The theorem at a manifest of one photo and the sample upload.\<close>

theorem bindings_preserved_witness:
  "map_of (manifest one_photo) (js ''V1StGXR8_Z'')
     = Some \<lparr>filename = js ''V1StGXR8_Z.png'', createdAt = 1690000000000\<rparr>
   \<and> no_collision (Upload working_disk (Some sample_file)) one_photo
   \<and> map_of (manifest (snd (handle (BASE_URL [] None) failing_encoder
         (Upload working_disk (Some sample_file)) one_photo))) (js ''V1StGXR8_Z'')
     = Some \<lparr>filename = js ''V1StGXR8_Z.png'', createdAt = 1690000000000\<rparr>"
proof -
  have a: "map_of (manifest one_photo) (js ''V1StGXR8_Z'')
     = Some \<lparr>filename = js ''V1StGXR8_Z.png'', createdAt = 1690000000000\<rparr>"
    by (simp add: one_photo_def)
  have b: "no_collision (Upload working_disk (Some sample_file)) one_photo"
    by (simp add: no_collision_def working_disk_def nanoid_zero_pool one_photo_def)
  show ?thesis
    using a b bindings_preserved [OF a b, of "BASE_URL [] None" failing_encoder] by simp
qed

end
